theory Spec2Isabelle
  imports Main "HOL-Library.Sublist" "HOL-Library.Multiset"
begin

section \<open>Session lookup: \<open>getUser\<close> (src/lib/queries.ts)\<close>

text \<open>
  \<open>getUser\<close> reads the \<open>session\<close> cookie, hands its value to \<open>verifyToken\<close>
  (module \<open>./session\<close>, an external collaborator: it is a parameter of the model and
  may throw), checks the shape of the payload, compares the expiry with the clock and
  reads one row of the users table.

  A value of JavaScript's type \<open>number\<close> is an integer, a finite number that is not an
  integer, or one of NaN, Infinity and -Infinity. \<open>new Date(sessionData.expires)\<close> has a
  time value in milliseconds, or is an invalid date, whose comparison with any date is
  false.
\<close>

datatype js_number = Integral int | Fraction | NonFinite

datatype js_id = IdNumber js_number | IdNotNumber

record session_user =
  id_field :: js_id

record session_data =
  user :: "session_user option"
  expires :: "int option"

datatype verify_result = VerifyThrows | Verified "session_data option"

record 'a user_row =
  user_id :: int
  user_fields :: 'a

datatype get_user_error = TokenVerificationThrew | QueryArgumentRejected

definition date_lt :: "int option \<Rightarrow> int \<Rightarrow> bool" where
  "date_lt d now = (case d of None \<Rightarrow> False | Some t \<Rightarrow> t < now)"

text \<open>
  The query of lines 34-38, \<open>select().from(users).where(eq(users.id, id)).limit(1)\<close>.
  The id is bound as an argument of the statement, and the libsql client refuses an
  argument that is not a finite number with a \<open>RangeError\<close>; a finite number that is
  not an integer is sent and equals the id of no row.
\<close>

definition select_user_by_id ::
  "'a user_row list \<Rightarrow> js_number \<Rightarrow> get_user_error + 'a user_row list" where
  "select_user_by_id users n =
     (case n of
        Integral k \<Rightarrow> Inr (take 1 (filter (\<lambda>u. user_id u = k) users))
      | Fraction \<Rightarrow> Inr []
      | NonFinite \<Rightarrow> Inl QueryArgumentRejected)"

text \<open>
  \<open>getUser\<close> has no handler around \<open>verifyToken\<close> or around the query: what they throw
  leaves \<open>getUser\<close> as it is.
\<close>

definition getUser ::
  "string option \<Rightarrow> (string \<Rightarrow> verify_result) \<Rightarrow> int \<Rightarrow> 'a user_row list
     \<Rightarrow> get_user_error + 'a user_row option" where
  "getUser sessionCookie verifyToken now users =
     (case sessionCookie of
        None \<Rightarrow> Inr None
      | Some v \<Rightarrow>
          if v = [] then Inr None
          else (case verifyToken v of
                  VerifyThrows \<Rightarrow> Inl TokenVerificationThrew
                | Verified None \<Rightarrow> Inr None
                | Verified (Some sessionData) \<Rightarrow>
                    (case user sessionData of
                       None \<Rightarrow> Inr None
                     | Some u \<Rightarrow>
                         (case id_field u of
                            IdNotNumber \<Rightarrow> Inr None
                          | IdNumber n \<Rightarrow>
                              if date_lt (expires sessionData) now then Inr None
                              else (case select_user_by_id users n of
                                      Inl e \<Rightarrow> Inl e
                                    | Inr [] \<Rightarrow> Inr None
                                    | Inr (r # _) \<Rightarrow> Inr (Some r))))))"

section \<open>JavaScript strings\<close>

text \<open>
  A string is a list of 8-bit code units: the model covers the strings whose UTF-16
  units lie in the Latin-1 range, so that \<open>length\<close> is JavaScript's \<open>.length\<close>.
  \<open>String.prototype.trim\<close> removes white space and line terminators from both ends;
  in this range they are TAB, LF, VT, FF, CR, SP and NBSP. \<open>split_on sep\<close> is
  \<open>.split(sep)\<close> for a separator of one character: it cuts at every occurrence and keeps
  the empty pieces.
\<close>

definition LF :: char where
  "LF = CHR 0x0A"

definition CR :: char where
  "CR = CHR 0x0D"

definition is_js_whitespace :: "char \<Rightarrow> bool" where
  "is_js_whitespace c =
     (c \<in> set [CHR 0x09, CHR 0x0A, CHR 0x0B, CHR 0x0C, CHR 0x0D, CHR 0x20, CHR 0xA0])"

definition trim :: "string \<Rightarrow> string" where
  "trim s = rev (dropWhile is_js_whitespace (rev (dropWhile is_js_whitespace s)))"

fun split_on :: "char \<Rightarrow> string \<Rightarrow> string list" where
  "split_on sep [] = [[]]"
| "split_on sep (c # cs) =
     (if c = sep then [] # split_on sep cs
      else (case split_on sep cs of [] \<Rightarrow> [[c]] | w # ws \<Rightarrow> (c # w) # ws))"

section \<open>The import script (scripts/import-convex-data.ts)\<close>

subsection \<open>Batch inserter\<close>

text \<open>
  Every import function ends in the same loop (lines 99-105, 165-171, 192-198, 260-266,
  294-305):
  \<^verbatim>\<open>for (let i = 0; i < rows.length; i += BATCH_SIZE) {
    const batch = rows.slice(i, i + BATCH_SIZE);
    await db.insert(table).values(batch); ... }\<close>
  It is modelled once, for any table: \<open>ins\<close> is the write of one batch to the store.
  A loop whose step is 0 would never end, so the loop is a partial function: \<open>None\<close>
  means that it does not return. The progress lines printed with \<open>console.log\<close> are left
  out of the model.
\<close>

definition slice :: "'a list \<Rightarrow> nat \<Rightarrow> nat \<Rightarrow> 'a list" where
  "slice xs i j = take (j - i) (drop i xs)"

partial_function (option) insert_batches_from ::
  "nat \<Rightarrow> ('r list \<Rightarrow> 's \<Rightarrow> 's) \<Rightarrow> 'r list \<Rightarrow> nat \<Rightarrow> 's \<Rightarrow> 's option" where
  "insert_batches_from B ins rows i db =
     (if i < length rows
      then insert_batches_from B ins rows (i + B) (ins (slice rows i (i + B)) db)
      else Some db)"

declare insert_batches_from.simps [code]

definition insert_in_batches ::
  "nat \<Rightarrow> ('r list \<Rightarrow> 's \<Rightarrow> 's) \<Rightarrow> 'r list \<Rightarrow> 's \<Rightarrow> 's option" where
  "insert_in_batches B ins rows db = insert_batches_from B ins rows 0 db"

text \<open>A store that only records the batches it is handed, in the order of the writes.\<close>

definition log_batch :: "'r list \<Rightarrow> 'r list list \<Rightarrow> 'r list list" where
  "log_batch batch written = written @ [batch]"

definition BATCH_SIZE :: nat where
  "BATCH_SIZE = 1000"

definition PRODUCT_BATCH_SIZE :: nat where
  "PRODUCT_BATCH_SIZE = 1000"

subsection \<open>Source records\<close>

text \<open>
  The interfaces of lines 13-56. \<open>_id\<close> is \<open>doc_id\<close>; an optional \<open>image_url\<close> is an
  option. A price is copied unchanged, so its numeric type plays no part; it is an \<open>int\<close>.
\<close>

record ConvexCollection =
  c_doc_id :: string
  c_creationTime :: int
  c_external_id :: int
  c_name :: string
  c_slug :: string

record ConvexCategory =
  cat_doc_id :: string
  cat_creationTime :: int
  cat_collection_id :: int
  cat_name :: string
  cat_slug :: string
  cat_image_url :: "string option"

record ConvexSubcollection =
  sc_doc_id :: string
  sc_creationTime :: int
  sc_external_id :: int
  sc_category_slug :: string
  sc_name :: string

record ConvexSubcategory =
  sub_doc_id :: string
  sub_creationTime :: int
  sub_subcollection_id :: int
  sub_name :: string
  sub_slug :: string
  sub_image_url :: "string option"

record ConvexProduct =
  p_doc_id :: string
  p_creationTime :: int
  p_name :: string
  p_slug :: string
  p_description :: string
  p_price :: int
  p_subcategory_slug :: string
  p_image_url :: "string option"

subsection \<open>The store\<close>

text \<open>
  Modelled from the spec: the schema (\<open>src/db/schema\<close>) and the store are not among
  the sources. Section 3 of the spec gives each entity its attributes; collections and
  subcollections carry an internal id "assigned on insert". The model keeps each table
  as the list of its rows in insertion order, numbers the rows of the two tables with
  an id from a per-table sequence, and enforces no constraint: what the import hands
  to the store is what the store holds.
\<close>

record collections_values =
  cv_name :: string
  cv_slug :: string

record collections_row =
  collections_id :: int
  collections_name :: string
  collections_slug :: string

record categories_row =
  categories_slug :: string
  categories_name :: string
  categories_collection_id :: int
  categories_image_url :: "string option"

record subcollections_values =
  scv_name :: string
  scv_category_slug :: string

record subcollections_row =
  subcollections_id :: int
  subcollections_name :: string
  subcollections_category_slug :: string

record subcategories_row =
  subcategories_slug :: string
  subcategories_name :: string
  subcategories_subcollection_id :: int
  subcategories_image_url :: "string option"

record products_row =
  products_slug :: string
  products_name :: string
  products_description :: string
  products_price :: int
  products_subcategory_slug :: string
  products_image_url :: "string option"

record store =
  collections_seq :: int
  subcollections_seq :: int
  collections :: "collections_row list"
  categories :: "categories_row list"
  subcollections :: "subcollections_row list"
  subcategories :: "subcategories_row list"
  products :: "products_row list"

definition empty_store :: store where
  "empty_store =
     \<lparr>collections_seq = 0, subcollections_seq = 0, collections = [], categories = [],
      subcollections = [], subcategories = [], products = []\<rparr>"

fun number_collections :: "int \<Rightarrow> collections_values list \<Rightarrow> collections_row list" where
  "number_collections n [] = []"
| "number_collections n (v # vs) =
     \<lparr>collections_id = n, collections_name = cv_name v, collections_slug = cv_slug v\<rparr>
       # number_collections (n + 1) vs"

fun number_subcollections ::
  "int \<Rightarrow> subcollections_values list \<Rightarrow> subcollections_row list" where
  "number_subcollections n [] = []"
| "number_subcollections n (v # vs) =
     \<lparr>subcollections_id = n, subcollections_name = scv_name v,
      subcollections_category_slug = scv_category_slug v\<rparr>
       # number_subcollections (n + 1) vs"

definition insert_collections :: "collections_values list \<Rightarrow> store \<Rightarrow> store" where
  "insert_collections batch db =
     db\<lparr>collections := collections db @ number_collections (collections_seq db + 1) batch,
        collections_seq := collections_seq db + int (length batch)\<rparr>"

definition insert_categories :: "categories_row list \<Rightarrow> store \<Rightarrow> store" where
  "insert_categories batch db = db\<lparr>categories := categories db @ batch\<rparr>"

definition insert_subcollections :: "subcollections_values list \<Rightarrow> store \<Rightarrow> store" where
  "insert_subcollections batch db =
     db\<lparr>subcollections := subcollections db
           @ number_subcollections (subcollections_seq db + 1) batch,
        subcollections_seq := subcollections_seq db + int (length batch)\<rparr>"

definition insert_subcategories :: "subcategories_row list \<Rightarrow> store \<Rightarrow> store" where
  "insert_subcategories batch db = db\<lparr>subcategories := subcategories db @ batch\<rparr>"

definition insert_products :: "products_row list \<Rightarrow> store \<Rightarrow> store" where
  "insert_products batch db = db\<lparr>products := products db @ batch\<rparr>"

subsection \<open>Key remapping\<close>

text \<open>
  The lines written with \<open>console.warn\<close>, as values. \<open>item.image_url || null\<close> turns
  a missing or empty string into null.
\<close>

datatype warning =
    CollectionNotFoundAfterInsert string
  | CollectionIdNotFound int string
  | SubcollectionNotFoundAfterInsert string
  | SubcollectionIdNotFound int string

definition or_null :: "string option \<Rightarrow> string option" where
  "or_null v = (case v of None \<Rightarrow> None | Some s \<Rightarrow> if s = [] then None else Some s)"

text \<open>
  Lines 108-127 and 201-222 are the same two loops, over collections keyed by slug and
  over subcollections keyed by \<^verbatim>\<open>`${name}::${category_slug}`\<close>. The first fills a
  \<open>Map\<close> from natural key to id with the rows read back (a later row replaces an earlier
  one of the same key). The second walks the source records: where the key has an id
  and the id is truthy (\<open>if (dbId)\<close>: not undefined and not 0) it sets
  \<open>external_id \<mapsto> id\<close>, otherwise it warns.
\<close>

definition key_to_id_map ::
  "('row \<Rightarrow> string) \<Rightarrow> ('row \<Rightarrow> int) \<Rightarrow> 'row list \<Rightarrow> (string \<rightharpoonup> int)" where
  "key_to_id_map key idf rows = fold (\<lambda>dbItem m. m(key dbItem \<mapsto> idf dbItem)) rows Map.empty"

definition match_step ::
  "('item \<Rightarrow> string) \<Rightarrow> ('item \<Rightarrow> int) \<Rightarrow> (string \<Rightarrow> warning) \<Rightarrow> (string \<rightharpoonup> int)
     \<Rightarrow> 'item \<Rightarrow> (int \<rightharpoonup> int) \<times> warning list \<Rightarrow> (int \<rightharpoonup> int) \<times> warning list" where
  "match_step key ext warn keyToId convexItem acc =
     (case keyToId (key convexItem) of
        None \<Rightarrow> (fst acc, snd acc @ [warn (key convexItem)])
      | Some dbId \<Rightarrow>
          if dbId \<noteq> 0 then ((fst acc)(ext convexItem \<mapsto> dbId), snd acc)
          else (fst acc, snd acc @ [warn (key convexItem)]))"

definition match_by_key ::
  "('item \<Rightarrow> string) \<Rightarrow> ('item \<Rightarrow> int) \<Rightarrow> (string \<Rightarrow> warning) \<Rightarrow> (string \<rightharpoonup> int)
     \<Rightarrow> 'item list \<Rightarrow> (int \<rightharpoonup> int) \<times> warning list" where
  "match_by_key key ext warn keyToId data =
     fold (match_step key ext warn keyToId) data (Map.empty, [])"

definition buildCollectionMap ::
  "collections_row list \<Rightarrow> ConvexCollection list \<Rightarrow> (int \<rightharpoonup> int) \<times> warning list" where
  "buildCollectionMap allCollections data =
     (let slugToIdMap = key_to_id_map collections_slug collections_id allCollections
      in match_by_key c_slug c_external_id CollectionNotFoundAfterInsert slugToIdMap data)"

definition subcollection_key :: "string \<Rightarrow> string \<Rightarrow> string" where
  "subcollection_key name category_slug = name @ ''::'' @ category_slug"

definition subcollection_row_key :: "subcollections_row \<Rightarrow> string" where
  "subcollection_row_key dbItem =
     subcollection_key (subcollections_name dbItem) (subcollections_category_slug dbItem)"

definition subcollection_item_key :: "ConvexSubcollection \<Rightarrow> string" where
  "subcollection_item_key convexItem =
     subcollection_key (sc_name convexItem) (sc_category_slug convexItem)"

definition buildSubcollectionMap ::
  "subcollections_row list \<Rightarrow> ConvexSubcollection list \<Rightarrow> (int \<rightharpoonup> int) \<times> warning list" where
  "buildSubcollectionMap allSubcollections data =
     (let keyToIdMap = key_to_id_map subcollection_row_key subcollections_id allSubcollections
      in match_by_key subcollection_item_key sc_external_id SubcollectionNotFoundAfterInsert
           keyToIdMap data)"

text \<open>A parent reference resolves in a remapping when it has an entry there that is truthy.\<close>

definition resolves :: "('k \<rightharpoonup> int) \<Rightarrow> 'k \<Rightarrow> bool" where
  "resolves keyToId k = (case keyToId k of None \<Rightarrow> False | Some n \<Rightarrow> n \<noteq> 0)"

subsection \<open>The five imports\<close>

text \<open>
  Each function takes \<open>data\<close>, the records its reader returned for its file (the readers
  are modelled below), and the store; it returns the store after the
  writes, the remapping where the source returns one, and the warnings. The result is
  \<open>None\<close> only if the batch loop does not return.
\<close>

definition importCollections ::
  "store \<Rightarrow> ConvexCollection list \<Rightarrow> (store \<times> (int \<rightharpoonup> int) \<times> warning list) option" where
  "importCollections db data =
     (let collectionsToInsert = map (\<lambda>item. \<lparr>cv_name = c_name item, cv_slug = c_slug item\<rparr>) data
      in case insert_in_batches BATCH_SIZE insert_collections collectionsToInsert db of
           None \<Rightarrow> None
         | Some db' \<Rightarrow>
             (let allCollections = collections db';
                  (collectionMap, warnings) = buildCollectionMap allCollections data
              in Some (db', collectionMap, warnings)))"

definition category_row :: "int \<Rightarrow> ConvexCategory \<Rightarrow> categories_row" where
  "category_row collectionId item =
     \<lparr>categories_slug = cat_slug item, categories_name = cat_name item,
      categories_collection_id = collectionId,
      categories_image_url = or_null (cat_image_url item)\<rparr>"

definition category_of :: "(int \<rightharpoonup> int) \<Rightarrow> ConvexCategory \<Rightarrow> warning + categories_row" where
  "category_of collectionMap item =
     (case collectionMap (cat_collection_id item) of
        None \<Rightarrow> Inl (CollectionIdNotFound (cat_collection_id item) (cat_slug item))
      | Some collectionId \<Rightarrow>
          if collectionId = 0
          then Inl (CollectionIdNotFound (cat_collection_id item) (cat_slug item))
          else Inr (category_row collectionId item))"

definition importCategories ::
  "store \<Rightarrow> (int \<rightharpoonup> int) \<Rightarrow> ConvexCategory list \<Rightarrow> (store \<times> warning list) option" where
  "importCategories db collectionMap data =
     (let mapped = map (category_of collectionMap) data;
          categoriesToInsert = [r. Inr r \<leftarrow> mapped]
      in case insert_in_batches BATCH_SIZE insert_categories categoriesToInsert db of
           None \<Rightarrow> None
         | Some db' \<Rightarrow> Some (db', [w. Inl w \<leftarrow> mapped]))"

definition importSubcollections ::
  "store \<Rightarrow> ConvexSubcollection list \<Rightarrow> (store \<times> (int \<rightharpoonup> int) \<times> warning list) option" where
  "importSubcollections db data =
     (let subcollectionsToInsert =
            map (\<lambda>item. \<lparr>scv_name = sc_name item, scv_category_slug = sc_category_slug item\<rparr>) data
      in case insert_in_batches BATCH_SIZE insert_subcollections subcollectionsToInsert db of
           None \<Rightarrow> None
         | Some db' \<Rightarrow>
             (let allSubcollections = subcollections db';
                  (subcollectionMap, warnings) = buildSubcollectionMap allSubcollections data
              in Some (db', subcollectionMap, warnings)))"

definition subcategory_row :: "int \<Rightarrow> ConvexSubcategory \<Rightarrow> subcategories_row" where
  "subcategory_row subcollectionId item =
     \<lparr>subcategories_slug = sub_slug item, subcategories_name = sub_name item,
      subcategories_subcollection_id = subcollectionId,
      subcategories_image_url = or_null (sub_image_url item)\<rparr>"

definition subcategory_of ::
  "(int \<rightharpoonup> int) \<Rightarrow> ConvexSubcategory \<Rightarrow> warning + subcategories_row" where
  "subcategory_of subcollectionMap item =
     (case subcollectionMap (sub_subcollection_id item) of
        None \<Rightarrow> Inl (SubcollectionIdNotFound (sub_subcollection_id item) (sub_slug item))
      | Some subcollectionId \<Rightarrow>
          if subcollectionId = 0
          then Inl (SubcollectionIdNotFound (sub_subcollection_id item) (sub_slug item))
          else Inr (subcategory_row subcollectionId item))"

definition importSubcategories ::
  "store \<Rightarrow> (int \<rightharpoonup> int) \<Rightarrow> ConvexSubcategory list \<Rightarrow> (store \<times> warning list) option" where
  "importSubcategories db subcollectionMap data =
     (let mapped = map (subcategory_of subcollectionMap) data;
          subcategoriesToInsert = [r. Inr r \<leftarrow> mapped]
      in case insert_in_batches BATCH_SIZE insert_subcategories subcategoriesToInsert db of
           None \<Rightarrow> None
         | Some db' \<Rightarrow> Some (db', [w. Inl w \<leftarrow> mapped]))"

definition product_of :: "ConvexProduct \<Rightarrow> products_row" where
  "product_of item =
     \<lparr>products_slug = p_slug item, products_name = p_name item,
      products_description = p_description item, products_price = p_price item,
      products_subcategory_slug = p_subcategory_slug item,
      products_image_url = or_null (p_image_url item)\<rparr>"

definition importProducts :: "store \<Rightarrow> ConvexProduct list \<Rightarrow> store option" where
  "importProducts db data =
     (let productsToInsert = map product_of data
      in insert_in_batches PRODUCT_BATCH_SIZE insert_products productsToInsert db)"

subsection \<open>Record readers\<close>

text \<open>
  Both readers take the content of the file and \<open>JSON.parse\<close>, which is a parameter:
  it returns a record or throws a \<open>SyntaxError\<close>, and a throw ends the reader.

  \<open>readJSONL\<close> (lines 58-64) splits the content at every LF, keeps the lines whose
  \<open>trim()\<close> is not empty and parses each.
\<close>

datatype read_error = SyntaxError

fun parse_lines :: "(string \<Rightarrow> read_error + 'r) \<Rightarrow> string list \<Rightarrow> read_error + 'r list" where
  "parse_lines JSON_parse [] = Inr []"
| "parse_lines JSON_parse (line # rest) =
     (case JSON_parse line of
        Inl e \<Rightarrow> Inl e
      | Inr r \<Rightarrow> (case parse_lines JSON_parse rest of Inl e \<Rightarrow> Inl e | Inr rs \<Rightarrow> Inr (r # rs)))"

definition readJSONL :: "(string \<Rightarrow> read_error + 'r) \<Rightarrow> string \<Rightarrow> read_error + 'r list" where
  "readJSONL JSON_parse content =
     parse_lines JSON_parse (filter (\<lambda>line. trim line \<noteq> []) (split_on LF content))"

text \<open>
  \<open>readJSONLStream\<close> (lines 66-80) iterates over the lines of a \<open>readline\<close> interface
  created with \<open>crlfDelay: Infinity\<close>. For \<open>readline\<close> an end of line is LF, CR or
  CR LF (with this option a CR followed by LF is always one end of line, never two),
  and at the end of the input the unfinished line is delivered if it is not empty.
  \<open>readline_lines cur rest\<close> are the lines delivered when \<open>cur\<close> is the line read so far
  and \<open>rest\<close> the input still to come.
\<close>

function readline_lines :: "string \<Rightarrow> string \<Rightarrow> string list" where
  "readline_lines cur [] = (if cur = [] then [] else [cur])"
| "readline_lines cur (c # cs) =
     (if c = LF then cur # readline_lines [] cs
      else if c = CR
        then cur # readline_lines [] (case cs of [] \<Rightarrow> [] | d # ds \<Rightarrow> if d = LF then ds else cs)
      else readline_lines (cur @ [c]) cs)"
  by pat_completeness auto
termination
  by (relation "measure (\<lambda>(cur, s). length s)") (auto split: list.splits)

fun read_loop ::
  "(string \<Rightarrow> read_error + 'r) \<Rightarrow> string list \<Rightarrow> 'r list \<Rightarrow> read_error + 'r list" where
  "read_loop JSON_parse [] data = Inr data"
| "read_loop JSON_parse (line # rest) data =
     (if trim line \<noteq> []
      then (case JSON_parse line of
              Inl e \<Rightarrow> Inl e
            | Inr r \<Rightarrow> read_loop JSON_parse rest (data @ [r]))
      else read_loop JSON_parse rest data)"

definition readJSONLStream ::
  "(string \<Rightarrow> read_error + 'r) \<Rightarrow> string \<Rightarrow> read_error + 'r list" where
  "readJSONLStream JSON_parse content = read_loop JSON_parse (readline_lines [] content) []"

text \<open>Every CR of the content is immediately followed by LF.\<close>

fun every_CR_before_LF :: "string \<Rightarrow> bool" where
  "every_CR_before_LF [] = True"
| "every_CR_before_LF [c] = (c \<noteq> CR)"
| "every_CR_before_LF (c # d # cs) = ((c \<noteq> CR \<or> d = LF) \<and> every_CR_before_LF (d # cs))"

text \<open>
  An instance of the parser for the examples: \<open>JSON.parse\<close> on the texts that are an
  unsigned integer literal between JSON white space (SP, TAB, LF, CR); on such files it
  is \<open>JSON.parse\<close>, and every other text is reported as a \<open>SyntaxError\<close>.
\<close>

definition is_json_whitespace :: "char \<Rightarrow> bool" where
  "is_json_whitespace c = (c \<in> set [CHR 0x20, CHR 0x09, CHR 0x0A, CHR 0x0D])"

definition is_digit :: "char \<Rightarrow> bool" where
  "is_digit c = (48 \<le> (of_char c :: nat) \<and> (of_char c :: nat) \<le> 57)"

definition parse_nat_literal :: "string \<Rightarrow> read_error + nat" where
  "parse_nat_literal s =
     (let d = rev (dropWhile is_json_whitespace (rev (dropWhile is_json_whitespace s)))
      in if d \<noteq> [] \<and> list_all is_digit d \<and> (length d = 1 \<or> hd d \<noteq> CHR ''0'')
         then Inr (foldl (\<lambda>n c. 10 * n + (of_char c - 48)) 0 d)
         else Inl SyntaxError)"

section \<open>Search (src/lib/queries.ts, \<open>getSearchResults\<close>)\<close>

subsection \<open>Conditions and the query\<close>

text \<open>
  The \<open>WHERE\<close> clause is built from \<open>sql\<close> fragments: one \<open>LIKE\<close> per term, chained with
  \<open>AND\<close>; each pattern is bound as an argument of the statement.
\<close>

datatype sql_cond =
    NocaseLike string
  | LowerLike string
  | And sql_cond sql_cond

text \<open>
  SQLite's \<open>LIKE\<close> reads its pattern and its text as C strings, which end at their
  first U+0000 (\<open>c_string\<close>), and compares them with \<open>patternCompare\<close>: \<open>%\<close> matches any
  run of characters, \<open>_\<close> any one character, and the letters A-Z are compared without
  regard to case. \<open>LOWER\<close> folds the same letters and keeps the length of its argument.
\<close>

definition ascii_lower :: "char \<Rightarrow> char" where
  "ascii_lower c =
     (if 65 \<le> (of_char c :: nat) \<and> (of_char c :: nat) \<le> 90
      then char_of ((of_char c :: nat) + 32) else c)"

definition c_string :: "string \<Rightarrow> string" where
  "c_string s = takeWhile (\<lambda>c. c \<noteq> CHR 0x00) s"

fun patternCompare :: "string \<Rightarrow> string \<Rightarrow> bool" where
  "patternCompare [] s = (s = [])"
| "patternCompare (p # ps) [] = (p = CHR ''%'' \<and> patternCompare ps [])"
| "patternCompare (p # ps) (c # cs) =
     (if p = CHR ''%'' then patternCompare ps (c # cs) \<or> patternCompare (p # ps) cs
      else (p = CHR ''_'' \<or> ascii_lower p = ascii_lower c) \<and> patternCompare ps cs)"

definition like :: "string \<Rightarrow> string \<Rightarrow> bool" where
  "like pattern subject = patternCompare (c_string pattern) (c_string subject)"

text \<open>
  \<open>NocaseLike p\<close> is \<^verbatim>\<open>products.name COLLATE NOCASE LIKE p\<close>, \<open>LowerLike p\<close> is
  \<^verbatim>\<open>LOWER(products.name) LIKE LOWER(p)\<close>; both are evaluated on the name of a product.
\<close>

fun eval_cond :: "sql_cond \<Rightarrow> string \<Rightarrow> bool" where
  "eval_cond (NocaseLike pattern) name = like pattern name"
| "eval_cond (LowerLike pattern) name = like (map ascii_lower pattern) (map ascii_lower name)"
| "eval_cond (And a b) name = (eval_cond a name \<and> eval_cond b name)"

text \<open>
  SQLite bounds what it evaluates. It refuses a \<open>LIKE\<close> whose pattern is longer than
  50000 bytes; the store keeps text in UTF-8, where a code unit below U+0080 is one
  byte and the others of the range of the model are two. And it refuses a statement
  whose expression tree reaches the depth of 1000: the tree of the statement is that of
  its \<open>WHERE\<close> clause under the \<open>ON\<close> clauses of the three joins; a \<open>LIKE\<close> over the
  name under \<open>COLLATE\<close> or \<open>LOWER\<close> is at most 3 deep, an \<open>AND\<close> one deeper than the
  deeper of its sides. \<open>accepted\<close> holds of the conditions within these bounds, and
  \<open>eval_cond\<close> is the value of such a condition.
\<close>

definition utf8_length :: "string \<Rightarrow> nat" where
  "utf8_length s = length s + length (filter (\<lambda>c. 128 \<le> (of_char c :: nat)) s)"

definition like_pattern_limit :: nat where
  "like_pattern_limit = 50000"

definition expr_depth_limit :: nat where
  "expr_depth_limit = 1000"

fun patterns_within_limit :: "sql_cond \<Rightarrow> bool" where
  "patterns_within_limit (NocaseLike pattern) = (utf8_length pattern \<le> like_pattern_limit)"
| "patterns_within_limit (LowerLike pattern)
     = (utf8_length (map ascii_lower pattern) \<le> like_pattern_limit)"
| "patterns_within_limit (And a b) = (patterns_within_limit a \<and> patterns_within_limit b)"

fun expr_depth :: "sql_cond \<Rightarrow> nat" where
  "expr_depth (NocaseLike pattern) = 3"
| "expr_depth (LowerLike pattern) = 3"
| "expr_depth (And a b) = 1 + max (expr_depth a) (expr_depth b)"

definition accepted :: "sql_cond \<Rightarrow> bool" where
  "accepted cond = (patterns_within_limit cond \<and> expr_depth cond + 3 < expr_depth_limit)"

text \<open>
  The query of lines 215-231 and 434-450: products that satisfy the condition, joined
  with their subcategory, its subcollection and its category (\<open>matching_rows\<close>), at most
  5 rows. The tables are those of the store above. The statement has no \<open>ORDER BY\<close>, so
  which rows \<open>LIMIT 5\<close> keeps is the store's choice: it depends on its indexes and its
  plan. That choice is a parameter of the model: \<open>row_order cond rows\<close> is the order in
  which the store produces the rows of the statement, a rearrangement of them
  (\<open>is_row_order\<close>); \<open>insertion_order\<close> is the order of the nested loops over the tables.
  The second component of a result of \<open>getSearchResults\<close> lists the conditions of the
  queries sent to the store. The cache that \<open>unstable_cache\<close> puts around the function is
  not part of the model.
\<close>

record search_row =
  row_products :: products_row
  row_subcategories :: subcategories_row
  row_subcollections :: subcollections_row
  row_categories :: categories_row

type_synonym row_order = "sql_cond \<Rightarrow> search_row list \<Rightarrow> search_row list"

definition is_row_order :: "row_order \<Rightarrow> bool" where
  "is_row_order row_order = (\<forall>cond rows. mset (row_order cond rows) = mset rows)"

definition insertion_order :: row_order where
  "insertion_order cond rows = rows"

definition matching_rows :: "store \<Rightarrow> sql_cond \<Rightarrow> search_row list" where
  "matching_rows db whereCondition =
     [\<lparr>row_products = p, row_subcategories = sc, row_subcollections = scol,
        row_categories = cat\<rparr>.
        p \<leftarrow> products db, eval_cond whereCondition (products_name p),
        sc \<leftarrow> subcategories db, products_subcategory_slug p = subcategories_slug sc,
        scol \<leftarrow> subcollections db, subcategories_subcollection_id sc = subcollections_id scol,
        cat \<leftarrow> categories db, subcollections_category_slug scol = categories_slug cat]"

definition search_query :: "row_order \<Rightarrow> store \<Rightarrow> sql_cond \<Rightarrow> search_row list" where
  "search_query row_order db whereCondition =
     take 5 (row_order whereCondition (matching_rows db whereCondition))"

subsection \<open>The two versions of \<open>getSearchResults\<close>\<close>

text \<open>
  Both versions cut the search string into terms in the same way (lines 175-181 and
  411-418): trim, split at every space, drop the pieces whose \<open>trim()\<close> is empty, trim
  the others.
\<close>

definition searchTerms_of :: "string \<Rightarrow> string list" where
  "searchTerms_of searchTerm =
     map trim (filter (\<lambda>term. trim term \<noteq> []) (split_on (CHR '' '') (trim searchTerm)))"

text \<open>
  Lines 171-237. With no term the function returns the empty list at once. With one
  term, or for each of several, the pattern is \<open>term%\<close> when the term has 3 characters or
  more and \<open>%term%\<close> otherwise. \<open>whereCondition firstTerm rest\<close> is the condition built
  in lines 187-212 for the terms \<open>firstTerm # rest\<close>.
\<close>

definition term_pattern :: "string \<Rightarrow> string" where
  "term_pattern term = (if 3 \<le> length term then term @ ''%'' else ''%'' @ term @ ''%'')"

definition whereCondition :: "string \<Rightarrow> string list \<Rightarrow> sql_cond" where
  "whereCondition firstTerm rest =
     (if rest = []
      then (if 3 \<le> length firstTerm then NocaseLike (firstTerm @ ''%'')
            else NocaseLike (''%'' @ firstTerm @ ''%''))
      else (let firstPattern =
                  (if 3 \<le> length firstTerm then firstTerm @ ''%'' else ''%'' @ firstTerm @ ''%'')
            in fold (\<lambda>term condition.
                       And condition
                         (NocaseLike (if 3 \<le> length term then term @ ''%''
                                      else ''%'' @ term @ ''%'')))
                 rest (NocaseLike firstPattern)))"

definition getSearchResults ::
  "row_order \<Rightarrow> store \<Rightarrow> string \<Rightarrow> search_row list \<times> sql_cond list" where
  "getSearchResults row_order db searchTerm =
     (case searchTerms_of searchTerm of
        [] \<Rightarrow> ([], [])
      | firstTerm # rest \<Rightarrow>
          (search_query row_order db (whereCondition firstTerm rest),
           [whereCondition firstTerm rest]))"

text \<open>
  Lines 408-456, the other version of the function in the same file. It has no return
  for an empty list of terms. With one term the pattern is \<open>%trimmedTerm%\<close>; otherwise
  the patterns are \<open>%term%\<close>, and the first of them is built from \<open>searchTerms[0]\<close>, which
  for an empty list is \<open>undefined\<close> and is concatenated as the text \<open>undefined\<close>.
\<close>

definition whereCondition_lower :: "string \<Rightarrow> string list \<Rightarrow> sql_cond" where
  "whereCondition_lower trimmedTerm searchTerms =
     (if length searchTerms = 1 then LowerLike (''%'' @ trimmedTerm @ ''%'')
      else fold (\<lambda>term condition. And condition (LowerLike (''%'' @ term @ ''%'')))
             (drop 1 searchTerms)
             (LowerLike (''%'' @ (case searchTerms of [] \<Rightarrow> ''undefined'' | t # _ \<Rightarrow> t) @ ''%'')))"

definition getSearchResults_lower ::
  "row_order \<Rightarrow> store \<Rightarrow> string \<Rightarrow> search_row list \<times> sql_cond list" where
  "getSearchResults_lower row_order db searchTerm =
     (let trimmedTerm = trim searchTerm;
          searchTerms = searchTerms_of searchTerm;
          whereCondition = whereCondition_lower trimmedTerm searchTerms
      in (search_query row_order db whereCondition, [whereCondition]))"

subsection \<open>The predicate as the specification words it\<close>

text \<open>
  Section 4.5 of the spec: the string is trimmed, split on white space, empty terms are
  dropped; a term of 3 characters or more must be a prefix of the name, a shorter term
  must occur in it, without regard to case, and all terms must match.
\<close>

fun split_where :: "(char \<Rightarrow> bool) \<Rightarrow> string \<Rightarrow> string list" where
  "split_where is_sep [] = [[]]"
| "split_where is_sep (c # cs) =
     (if is_sep c then [] # split_where is_sep cs
      else (case split_where is_sep cs of [] \<Rightarrow> [[c]] | w # ws \<Rightarrow> (c # w) # ws))"

definition spec_terms :: "string \<Rightarrow> string list" where
  "spec_terms searchTerm =
     filter (\<lambda>term. term \<noteq> []) (split_where is_js_whitespace (trim searchTerm))"

definition starts_with_nocase :: "string \<Rightarrow> string \<Rightarrow> bool" where
  "starts_with_nocase term name = prefix (map ascii_lower term) (map ascii_lower name)"

definition contains_nocase :: "string \<Rightarrow> string \<Rightarrow> bool" where
  "contains_nocase term name = sublist (map ascii_lower term) (map ascii_lower name)"

definition spec_term_matches :: "string \<Rightarrow> string \<Rightarrow> bool" where
  "spec_term_matches term name =
     (if 3 \<le> length term then starts_with_nocase term name else contains_nocase term name)"

definition spec_matches :: "string \<Rightarrow> string \<Rightarrow> bool" where
  "spec_matches searchTerm name = list_all (\<lambda>term. spec_term_matches term name) (spec_terms searchTerm)"

text \<open>
  A term is literal when it has none of the characters that \<open>LIKE\<close> reads specially:
  the wildcards \<open>%\<close> and \<open>_\<close>, and U+0000.
\<close>

definition no_wildcard :: "string \<Rightarrow> bool" where
  "no_wildcard term = (CHR ''%'' \<notin> set term \<and> CHR ''_'' \<notin> set term)"

definition literal_term :: "string \<Rightarrow> bool" where
  "literal_term term = (no_wildcard term \<and> CHR 0x00 \<notin> set term)"

text \<open>A store for the examples: one product with its three ancestors.\<close>

definition example_store :: store where
  "example_store =
     \<lparr>collections_seq = 1, subcollections_seq = 1,
      collections = [\<lparr>collections_id = 1, collections_name = ''Home'', collections_slug = ''home''\<rparr>],
      categories =
        [\<lparr>categories_slug = ''kitchen'', categories_name = ''Kitchen'',
          categories_collection_id = 1, categories_image_url = None\<rparr>],
      subcollections =
        [\<lparr>subcollections_id = 1, subcollections_name = ''Drinkware'',
          subcollections_category_slug = ''kitchen''\<rparr>],
      subcategories =
        [\<lparr>subcategories_slug = ''mugs'', subcategories_name = ''Mugs'',
          subcategories_subcollection_id = 1, subcategories_image_url = None\<rparr>],
      products =
        [\<lparr>products_slug = ''undefined-mug'', products_name = ''Undefined Mug'',
          products_description = ''A mug'', products_price = 9,
          products_subcategory_slug = ''mugs'', products_image_url = None\<rparr>]\<rparr>"

section \<open>Image prefetch endpoint (the route handler \<open>GET\<close>)\<close>

text \<open>
  A value read from \<open>process.env\<close> or from a header is a string or is missing; it is
  truthy when it is present and not empty. \<open>a || b\<close> is \<open>a\<close> when \<open>a\<close> is truthy and \<open>b\<close>
  otherwise, and a missing value is written \<open>undefined\<close> by a template string.
\<close>

record env =
  NODE_ENV :: "string option"
  VERCEL_URL :: "string option"
  VERCEL_ENV :: "string option"
  VERCEL_PROJECT_PRODUCTION_URL :: "string option"
  VERCEL_BRANCH_URL :: "string option"

definition truthy :: "string option \<Rightarrow> bool" where
  "truthy v = (case v of None \<Rightarrow> False | Some s \<Rightarrow> s \<noteq> [])"

definition js_or :: "string option \<Rightarrow> string option \<Rightarrow> string option" where
  "js_or a b = (if truthy a then a else b)"

definition template :: "string option \<Rightarrow> string" where
  "template v = (case v of None \<Rightarrow> ''undefined'' | Some s \<Rightarrow> s)"

definition getHostname :: "env \<Rightarrow> string option" where
  "getHostname e =
     (if NODE_ENV e = Some ''development'' then Some ''localhost:3000''
      else if truthy (VERCEL_URL e) then VERCEL_URL e
      else if VERCEL_ENV e = Some ''production''
        then js_or (VERCEL_PROJECT_PRODUCTION_URL e) (VERCEL_URL e)
      else js_or (VERCEL_BRANCH_URL e) (VERCEL_URL e))"

text \<open>
  The page and its parser are outside the repository, so they are parameters:
  \<open>fetch url\<close> rejects or gives a response with its \<open>ok\<close> flag and its text (\<open>None\<close> when
  reading the text rejects); \<open>main_imgs body\<close> is the list of the elements selected by
  \<open>"main img"\<close> in the parsed body, or \<open>None\<close> when parsing or selecting throws. An
  element is the list of its attributes, and \<open>getAttribute\<close> is null for a missing one.
\<close>

datatype fetch_result = FetchRejected | FetchResponse bool "string option"

type_synonym element = "(string \<times> string) list"

definition getAttribute :: "element \<Rightarrow> string \<Rightarrow> string option" where
  "getAttribute img name = map_of img name"

record image =
  img_srcset :: "string option"
  img_sizes :: "string option"
  img_src :: "string option"
  img_alt :: "string option"
  img_loading :: "string option"

record response =
  resp_status :: nat
  resp_images :: "image list"
  resp_cache_control :: "string option"

definition json_response :: "image list \<Rightarrow> nat \<Rightarrow> response" where
  "json_response imgs st = \<lparr>resp_status = st, resp_images = imgs, resp_cache_control = None\<rparr>"

definition image_of :: "element \<Rightarrow> image" where
  "image_of img =
     \<lparr>img_srcset = js_or (getAttribute img ''srcset'') (getAttribute img ''srcSet''),
      img_sizes = getAttribute img ''sizes'',
      img_src = getAttribute img ''src'',
      img_alt = getAttribute img ''alt'',
      img_loading = getAttribute img ''loading''\<rparr>"

definition extract_images :: "element list \<Rightarrow> image list" where
  "extract_images els = filter (\<lambda>img. truthy (img_src img)) (map image_of els)"

definition join :: "string \<Rightarrow> string list \<Rightarrow> string" where
  "join sep xs = (case xs of [] \<Rightarrow> [] | x # rest \<Rightarrow> foldl (\<lambda>acc y. acc @ sep @ y) x rest)"

text \<open>
  Lines 108-139 and 149-175 are the same steps: fetch the page, return an empty list
  with status 200 when the response is not ok, otherwise read the text, parse it and
  return the images with a \<open>Cache-Control\<close> header. Whatever throws on the way is caught
  (line 136, line 176) and answered with an empty list and status 200.
\<close>

definition prefetch_page ::
  "(string \<Rightarrow> fetch_result) \<Rightarrow> (string \<Rightarrow> element list option) \<Rightarrow> string \<Rightarrow> response" where
  "prefetch_page fetch main_imgs url =
     (case fetch url of
        FetchRejected \<Rightarrow> json_response [] 200
      | FetchResponse ok body \<Rightarrow>
          if \<not> ok then json_response [] 200
          else (case body of
                  None \<Rightarrow> json_response [] 200
                | Some text \<Rightarrow>
                    (case main_imgs text of
                       None \<Rightarrow> json_response [] 200
                     | Some els \<Rightarrow>
                         \<lparr>resp_status = 200, resp_images = extract_images els,
                          resp_cache_control = Some ''public, max-age=3600''\<rparr>)))"

definition page_url :: "string \<Rightarrow> string option \<Rightarrow> string \<Rightarrow> string" where
  "page_url schema host href = schema @ ''://'' @ template host @ ''/'' @ href"

definition GET ::
  "env \<Rightarrow> string option \<Rightarrow> string list \<Rightarrow> (string \<Rightarrow> fetch_result)
     \<Rightarrow> (string \<Rightarrow> element list option) \<Rightarrow> response" where
  "GET e hostHeader rest fetch main_imgs =
     (let schema = (if NODE_ENV e = Some ''development'' then ''http'' else ''https'');
          host = getHostname e
      in if \<not> truthy host
         then (if truthy hostHeader \<and> NODE_ENV e = Some ''development''
               then (let href = join ''/'' rest
                     in if href = [] then json_response [] 400
                        else prefetch_page fetch main_imgs (page_url schema hostHeader href))
               else json_response [] 500)
         else (let href = join ''/'' rest
               in if href = [] then json_response [] 400
                  else prefetch_page fetch main_imgs (page_url schema host href)))"

text \<open>The fetch of the page at \<open>url\<close>, or the parsing of what it returns, fails.\<close>

definition page_fails ::
  "(string \<Rightarrow> fetch_result) \<Rightarrow> (string \<Rightarrow> element list option) \<Rightarrow> string \<Rightarrow> bool" where
  "page_fails fetch main_imgs url =
     (case fetch url of
        FetchRejected \<Rightarrow> True
      | FetchResponse ok body \<Rightarrow>
          \<not> ok \<or> (case body of None \<Rightarrow> True | Some text \<Rightarrow> main_imgs text = None))"

section \<open>Properties of the batch inserter and the imports\<close>

subsection \<open>What the loops compute\<close>

lemma slice_step: "slice rows i (i + B) = take B (drop i rows)"
  by (simp add: slice_def)

lemma insert_batches_from_action:
  assumes B: "0 < B"
    and nil: "\<And>db. ins [] db = db"
    and app: "\<And>a b db. ins (a @ b) db = ins b (ins a db)"
  shows "insert_batches_from B ins rows i db = Some (ins (drop i rows) db)"
proof (induction "length rows - i" arbitrary: i db rule: less_induct)
  case less
  show ?case
  proof (cases "i < length rows")
    case False
    then show ?thesis
      by (subst insert_batches_from.simps) (simp add: nil)
  next
    case True
    have "length rows - (i + B) < length rows - i"
      using True B by arith
    from less[OF this]
    have "insert_batches_from B ins rows (i + B) (ins (take B (drop i rows)) db)
            = Some (ins (drop (i + B) rows) (ins (take B (drop i rows)) db))" .
    moreover have "take B (drop i rows) @ drop (i + B) rows = drop i rows"
      by (metis add.commute append_take_drop_id drop_drop)
    then have "ins (drop (i + B) rows) (ins (take B (drop i rows)) db) = ins (drop i rows) db"
      by (metis app)
    ultimately show ?thesis
      using True by (subst insert_batches_from.simps) (simp add: slice_step)
  qed
qed

lemma insert_in_batches_action:
  assumes "0 < B" and "\<And>db. ins [] db = db"
    and "\<And>a b db. ins (a @ b) db = ins b (ins a db)"
  shows "insert_in_batches B ins rows db = Some (ins rows db)"
  using insert_batches_from_action[OF assms, of rows 0 db]
  by (simp add: insert_in_batches_def)

lemma number_collections_append:
  "number_collections n (a @ b) = number_collections n a @ number_collections (n + int (length a)) b"
  by (induction a arbitrary: n) (simp_all add: add.assoc)

lemma number_subcollections_append:
  "number_subcollections n (a @ b)
     = number_subcollections n a @ number_subcollections (n + int (length a)) b"
  by (induction a arbitrary: n) (simp_all add: add.assoc)

lemma insert_collections_nil: "insert_collections [] db = db"
  by (simp add: insert_collections_def)

lemma insert_collections_append:
  "insert_collections (a @ b) db = insert_collections b (insert_collections a db)"
  by (simp add: insert_collections_def number_collections_append add.assoc add.commute add.left_commute)

lemma insert_subcollections_nil: "insert_subcollections [] db = db"
  by (simp add: insert_subcollections_def)

lemma insert_subcollections_append:
  "insert_subcollections (a @ b) db = insert_subcollections b (insert_subcollections a db)"
  by (simp add: insert_subcollections_def number_subcollections_append add.assoc add.commute add.left_commute)

lemma BATCH_SIZE_pos: "0 < BATCH_SIZE"
  by (simp add: BATCH_SIZE_def)

lemma PRODUCT_BATCH_SIZE_pos: "0 < PRODUCT_BATCH_SIZE"
  by (simp add: PRODUCT_BATCH_SIZE_def)

lemma importCollections_eq:
  "importCollections db data =
     Some (insert_collections (map (\<lambda>item. \<lparr>cv_name = c_name item, cv_slug = c_slug item\<rparr>) data) db,
           buildCollectionMap
             (collections (insert_collections
                (map (\<lambda>item. \<lparr>cv_name = c_name item, cv_slug = c_slug item\<rparr>) data) db)) data)"
  by (simp add: importCollections_def Let_def
        insert_in_batches_action[OF BATCH_SIZE_pos insert_collections_nil insert_collections_append]
        split: prod.splits)

lemma importSubcollections_eq:
  "importSubcollections db data =
     Some (insert_subcollections
             (map (\<lambda>item. \<lparr>scv_name = sc_name item, scv_category_slug = sc_category_slug item\<rparr>) data) db,
           buildSubcollectionMap
             (subcollections (insert_subcollections
                (map (\<lambda>item. \<lparr>scv_name = sc_name item, scv_category_slug = sc_category_slug item\<rparr>) data) db))
             data)"
  by (simp add: importSubcollections_def Let_def
        insert_in_batches_action[OF BATCH_SIZE_pos insert_subcollections_nil insert_subcollections_append]
        split: prod.splits)

lemma inserted_categories:
  "[r. Inr r \<leftarrow> map (category_of collectionMap) data]
     = map (\<lambda>item. category_row (the (collectionMap (cat_collection_id item))) item)
         (filter (\<lambda>item. resolves collectionMap (cat_collection_id item)) data)"
  by (induction data) (auto simp: category_of_def resolves_def split: option.splits)

lemma category_warnings:
  "[w. Inl w \<leftarrow> map (category_of collectionMap) data]
     = map (\<lambda>item. CollectionIdNotFound (cat_collection_id item) (cat_slug item))
         (filter (\<lambda>item. \<not> resolves collectionMap (cat_collection_id item)) data)"
  by (induction data) (auto simp: category_of_def resolves_def split: option.splits)

lemma inserted_subcategories:
  "[r. Inr r \<leftarrow> map (subcategory_of subcollectionMap) data]
     = map (\<lambda>item. subcategory_row (the (subcollectionMap (sub_subcollection_id item))) item)
         (filter (\<lambda>item. resolves subcollectionMap (sub_subcollection_id item)) data)"
  by (induction data) (auto simp: subcategory_of_def resolves_def split: option.splits)

lemma subcategory_warnings:
  "[w. Inl w \<leftarrow> map (subcategory_of subcollectionMap) data]
     = map (\<lambda>item. SubcollectionIdNotFound (sub_subcollection_id item) (sub_slug item))
         (filter (\<lambda>item. \<not> resolves subcollectionMap (sub_subcollection_id item)) data)"
  by (induction data) (auto simp: subcategory_of_def resolves_def split: option.splits)

lemma importCategories_eq:
  "importCategories db collectionMap data =
     Some (insert_categories
             (map (\<lambda>item. category_row (the (collectionMap (cat_collection_id item))) item)
                (filter (\<lambda>item. resolves collectionMap (cat_collection_id item)) data)) db,
           map (\<lambda>item. CollectionIdNotFound (cat_collection_id item) (cat_slug item))
             (filter (\<lambda>item. \<not> resolves collectionMap (cat_collection_id item)) data))"
  unfolding importCategories_def Let_def inserted_categories category_warnings
  by (simp add: insert_in_batches_action[OF BATCH_SIZE_pos, of insert_categories]
        insert_categories_def)

lemma importSubcategories_eq:
  "importSubcategories db subcollectionMap data =
     Some (insert_subcategories
             (map (\<lambda>item. subcategory_row (the (subcollectionMap (sub_subcollection_id item))) item)
                (filter (\<lambda>item. resolves subcollectionMap (sub_subcollection_id item)) data)) db,
           map (\<lambda>item. SubcollectionIdNotFound (sub_subcollection_id item) (sub_slug item))
             (filter (\<lambda>item. \<not> resolves subcollectionMap (sub_subcollection_id item)) data))"
  unfolding importSubcategories_def Let_def inserted_subcategories subcategory_warnings
  by (simp add: insert_in_batches_action[OF BATCH_SIZE_pos, of insert_subcategories]
        insert_subcategories_def)

lemma importProducts_eq:
  "importProducts db data = Some (insert_products (map product_of data) db)"
  by (simp add: importProducts_def Let_def
        insert_in_batches_action[OF PRODUCT_BATCH_SIZE_pos, of insert_products] insert_products_def)

lemma find_app:
  "find P (xs @ ys) = (case find P xs of None \<Rightarrow> find P ys | Some x \<Rightarrow> Some x)"
  by (induction xs) simp_all

lemma find_SomeD: "find P xs = Some x \<Longrightarrow> x \<in> set xs \<and> P x"
  by (induction xs) (auto split: if_splits)

lemma key_to_id_map_fold:
  "fold (\<lambda>dbItem m. m(key dbItem \<mapsto> idf dbItem)) rows m0 k
     = (case find (\<lambda>r. key r = k) (rev rows) of None \<Rightarrow> m0 k | Some r \<Rightarrow> Some (idf r))"
proof (induction rows arbitrary: m0)
  case Nil
  then show ?case by simp
next
  case (Cons r rows)
  have "fold (\<lambda>dbItem m. m(key dbItem \<mapsto> idf dbItem)) (r # rows) m0 k
          = fold (\<lambda>dbItem m. m(key dbItem \<mapsto> idf dbItem)) rows (m0(key r \<mapsto> idf r)) k"
    by simp
  also have "\<dots> = (case find (\<lambda>r. key r = k) (rev rows) of
                      None \<Rightarrow> (m0(key r \<mapsto> idf r)) k | Some r \<Rightarrow> Some (idf r))"
    by (rule Cons)
  also have "\<dots> = (case find (\<lambda>r. key r = k) (rev (r # rows)) of
                      None \<Rightarrow> m0 k | Some r \<Rightarrow> Some (idf r))"
    by (simp add: find_app split: option.splits)
  finally show ?case .
qed

lemma key_to_id_map_find:
  "key_to_id_map key idf rows k = map_option idf (find (\<lambda>r. key r = k) (rev rows))"
  by (simp add: key_to_id_map_def key_to_id_map_fold split: option.splits)

lemma key_to_id_map_SomeD:
  "key_to_id_map key idf rows k = Some n \<Longrightarrow> \<exists>r \<in> set rows. key r = k \<and> idf r = n"
proof -
  assume "key_to_id_map key idf rows k = Some n"
  then obtain z where z: "find (\<lambda>r. key r = k) (rev rows) = Some z" and n: "n = idf z"
    by (auto simp: key_to_id_map_find)
  from find_SomeD[OF z] have "z \<in> set rows" "key z = k" by auto
  with n show ?thesis by auto
qed

lemma key_to_id_map_None: "key_to_id_map key idf rows k = None \<longleftrightarrow> k \<notin> key ` set rows"
  by (auto simp: key_to_id_map_find find_None_iff)

lemma find_distinct_key:
  assumes "distinct (map key rows)" and "r \<in> set rows"
  shows "find (\<lambda>x. key x = key r) rows = Some r"
  using assms
proof (induction rows)
  case Nil
  then show ?case by simp
next
  case (Cons x rows)
  then show ?case by (auto simp: image_iff)
qed

lemma key_to_id_map_distinct:
  assumes "distinct (map key rows)" and "r \<in> set rows"
  shows "key_to_id_map key idf rows (key r) = Some (idf r)"
proof -
  have "distinct (map key (rev rows))" using assms(1) by (simp add: rev_map[symmetric])
  moreover have "r \<in> set (rev rows)" using assms(2) by simp
  ultimately show ?thesis
    by (simp add: key_to_id_map_find find_distinct_key)
qed

lemma match_step_fst:
  "fst (match_step key ext warn keyToId item acc) =
     (if resolves keyToId (key item) then (fst acc)(ext item := keyToId (key item)) else fst acc)"
  by (auto simp: match_step_def resolves_def split: option.splits)

lemma match_step_snd:
  "snd (match_step key ext warn keyToId item acc) =
     (if resolves keyToId (key item) then snd acc else snd acc @ [warn (key item)])"
  by (auto simp: match_step_def resolves_def split: option.splits)

lemma match_fold_fst:
  "fst (fold (match_step key ext warn keyToId) data acc) e =
     (case find (\<lambda>item. ext item = e \<and> resolves keyToId (key item)) (rev data) of
        None \<Rightarrow> fst acc e
      | Some item \<Rightarrow> keyToId (key item))"
proof (induction data arbitrary: acc)
  case Nil
  then show ?case by simp
next
  case (Cons item data)
  have "fst (fold (match_step key ext warn keyToId) (item # data) acc) e
          = fst (fold (match_step key ext warn keyToId) data
                   (match_step key ext warn keyToId item acc)) e"
    by simp
  also have "\<dots> = (case find (\<lambda>item. ext item = e \<and> resolves keyToId (key item)) (rev data) of
                      None \<Rightarrow> fst (match_step key ext warn keyToId item acc) e
                    | Some item \<Rightarrow> keyToId (key item))"
    by (rule Cons)
  also have "\<dots> = (case find (\<lambda>item. ext item = e \<and> resolves keyToId (key item))
                            (rev (item # data)) of
                      None \<Rightarrow> fst acc e
                    | Some item \<Rightarrow> keyToId (key item))"
    by (simp add: find_app match_step_fst split: option.splits)
  finally show ?case .
qed

lemma match_fold_snd:
  "snd (fold (match_step key ext warn keyToId) data acc) =
     snd acc @ map (\<lambda>item. warn (key item))
                 (filter (\<lambda>item. \<not> resolves keyToId (key item)) data)"
proof (induction data arbitrary: acc)
  case Nil
  then show ?case by simp
next
  case (Cons item data)
  have "snd (fold (match_step key ext warn keyToId) (item # data) acc)
          = snd (fold (match_step key ext warn keyToId) data
                   (match_step key ext warn keyToId item acc))"
    by simp
  also have "\<dots> = snd (match_step key ext warn keyToId item acc)
                     @ map (\<lambda>item. warn (key item))
                         (filter (\<lambda>item. \<not> resolves keyToId (key item)) data)"
    by (rule Cons)
  also have "\<dots> = snd acc @ map (\<lambda>item. warn (key item))
                       (filter (\<lambda>item. \<not> resolves keyToId (key item)) (item # data))"
    by (simp add: match_step_snd)
  finally show ?case .
qed

lemma match_by_key_map:
  "fst (match_by_key key ext warn keyToId data) e =
     (case find (\<lambda>item. ext item = e \<and> resolves keyToId (key item)) (rev data) of
        None \<Rightarrow> None | Some item \<Rightarrow> keyToId (key item))"
  by (simp add: match_by_key_def match_fold_fst cong: option.case_cong)

lemma match_by_key_warnings:
  "snd (match_by_key key ext warn keyToId data) =
     map (\<lambda>item. warn (key item)) (filter (\<lambda>item. \<not> resolves keyToId (key item)) data)"
  by (simp add: match_by_key_def match_fold_snd)

lemma match_by_key_SomeD:
  assumes "fst (match_by_key key ext warn keyToId data) e = Some n"
  shows "\<exists>item \<in> set data. ext item = e \<and> keyToId (key item) = Some n \<and> n \<noteq> 0"
proof -
  from assms obtain item where
    f: "find (\<lambda>item. ext item = e \<and> resolves keyToId (key item)) (rev data) = Some item"
    and k: "keyToId (key item) = Some n"
    by (auto simp: match_by_key_map split: option.splits)
  from find_SomeD[OF f] have "item \<in> set data" "ext item = e" "resolves keyToId (key item)"
    by auto
  with k show ?thesis by (auto simp: resolves_def)
qed

lemma match_by_key_distinct:
  assumes "distinct (map ext data)" and "item \<in> set data"
  shows "fst (match_by_key key ext warn keyToId data) (ext item) =
           (if resolves keyToId (key item) then keyToId (key item) else None)"
proof -
  have d: "distinct (map ext (rev data))" using assms(1) by (simp add: rev_map[symmetric])
  have same: "\<And>x. x \<in> set data \<Longrightarrow> ext x = ext item \<Longrightarrow> x = item"
    using assms by (meson distinct_map inj_onD)
  show ?thesis
  proof (cases "resolves keyToId (key item)")
    case True
    have "find (\<lambda>x. ext x = ext item \<and> resolves keyToId (key x)) (rev data) = Some item"
    proof (cases "find (\<lambda>x. ext x = ext item \<and> resolves keyToId (key x)) (rev data)")
      case None
      then show ?thesis using True assms(2) by (auto simp: find_None_iff)
    next
      case (Some x)
      from find_SomeD[OF this] have "x \<in> set data" "ext x = ext item" by auto
      with same Some show ?thesis by simp
    qed
    then show ?thesis using True by (simp add: match_by_key_map)
  next
    case False
    have "find (\<lambda>x. ext x = ext item \<and> resolves keyToId (key x)) (rev data) = None"
    proof (cases "find (\<lambda>x. ext x = ext item \<and> resolves keyToId (key x)) (rev data)")
      case None
      then show ?thesis .
    next
      case (Some x)
      from find_SomeD[OF this] have "x \<in> set data" "ext x = ext item" "resolves keyToId (key x)"
        by auto
      with same False show ?thesis by auto
    qed
    then show ?thesis using False by (simp add: match_by_key_map)
  qed
qed

subsection \<open>The batch inserter partitions its input\<close>

lemma batches_from_log:
  assumes "0 < B"
  shows "\<exists>cs. insert_batches_from B log_batch rows i written = Some (written @ cs)
           \<and> concat cs = drop i rows
           \<and> (\<forall>c \<in> set cs. 1 \<le> length c \<and> length c \<le> B)
           \<and> (\<forall>c \<in> set (butlast cs). length c = B)"
proof (induction "length rows - i" arbitrary: i written rule: less_induct)
  case less
  show ?case
  proof (cases "i < length rows")
    case False
    then show ?thesis
      by (subst insert_batches_from.simps) simp
  next
    case True
    let ?c = "take B (drop i rows)"
    have "length rows - (i + B) < length rows - i"
      using True assms by arith
    from less[OF this, of "written @ [?c]"]
    obtain cs where cs:
      "insert_batches_from B log_batch rows (i + B) ((written @ [?c])) = Some ((written @ [?c]) @ cs)"
      "concat cs = drop (i + B) rows"
      "\<forall>c \<in> set cs. 1 \<le> length c \<and> length c \<le> B"
      "\<forall>c \<in> set (butlast cs). length c = B"
      by blast
    have run: "insert_batches_from B log_batch rows i written = Some (written @ (?c # cs))"
      using True cs(1)
      by (subst insert_batches_from.simps) (simp add: slice_step log_batch_def)
    have cat: "concat (?c # cs) = drop i rows"
      using cs(2) by (simp add: add.commute[of i B] flip: drop_drop)
    have len: "1 \<le> length ?c \<and> length ?c \<le> B"
      using True assms by simp
    have full: "cs \<noteq> [] \<Longrightarrow> length ?c = B"
    proof -
      assume "cs \<noteq> []"
      then obtain c where "c \<in> set cs" by (cases cs) auto
      with cs(3) have "c \<noteq> []" by auto
      with \<open>c \<in> set cs\<close> have "concat cs \<noteq> []" by auto
      with cs(2) have "i + B < length rows" by simp
      then show ?thesis by simp
    qed
    show ?thesis
      using run cat len full cs(3,4) by (intro exI[of _ "?c # cs"]) auto
  qed
qed

text \<open>Whatever the store, the loop makes the writes that the recording store lists.\<close>

lemma batches_from_fold:
  assumes "0 < B"
  shows "insert_batches_from B log_batch rows i written = Some (written @ cs)
           \<Longrightarrow> insert_batches_from B ins rows i db = Some (fold ins cs db)"
proof (induction "length rows - i" arbitrary: i written cs db rule: less_induct)
  case less
  show ?case
  proof (cases "i < length rows")
    case False
    with less.prems show ?thesis
      by (subst insert_batches_from.simps, subst (asm) insert_batches_from.simps) simp
  next
    case True
    let ?c = "slice rows i (i + B)"
    have m: "length rows - (i + B) < length rows - i"
      using True assms by arith
    from batches_from_log[OF assms, of rows "i + B" "written @ [?c]"]
    obtain cs' where cs':
      "insert_batches_from B log_batch rows (i + B) (written @ [?c]) = Some ((written @ [?c]) @ cs')"
      by blast
    have "insert_batches_from B log_batch rows i written = Some (written @ ?c # cs')"
      using True cs' by (subst insert_batches_from.simps) (simp add: log_batch_def)
    with less.prems have cs: "cs = ?c # cs'" by simp
    have "insert_batches_from B ins rows (i + B) (ins ?c db) = Some (fold ins cs' (ins ?c db))"
      using m cs' by (rule less.hyps)
    then show ?thesis
      using True cs by (subst insert_batches_from.simps) simp
  qed
qed

text \<open>
  C5. For a chunk size \<open>B > 0\<close> the loop returns, and the batches it wrote, in write
  order, concatenate to the input; every batch but the last has exactly \<open>B\<close> records and
  every batch (the last one too) has between 1 and \<open>B\<close>. The same batches are the writes
  made to any store.
\<close>

theorem insert_in_batches_partition:
  assumes "0 < B"
  shows "\<exists>chunks. insert_in_batches B log_batch rows [] = Some chunks
           \<and> concat chunks = rows
           \<and> (\<forall>c \<in> set (butlast chunks). length c = B)
           \<and> (\<forall>c \<in> set chunks. 1 \<le> length c \<and> length c \<le> B)
           \<and> (\<forall>ins db. insert_in_batches B ins rows db = Some (fold ins chunks db))"
proof -
  from batches_from_log[OF assms, of rows 0 "[]"]
  obtain cs where cs:
    "insert_batches_from B log_batch rows 0 [] = Some ([] @ cs)"
    "concat cs = rows"
    "\<forall>c \<in> set cs. 1 \<le> length c \<and> length c \<le> B"
    "\<forall>c \<in> set (butlast cs). length c = B"
    by auto
  have "insert_in_batches B ins rows db = Some (fold ins cs db)"
    for ins :: "'a list \<Rightarrow> 'b \<Rightarrow> 'b" and db
    using batches_from_fold[OF assms cs(1)] by (simp add: insert_in_batches_def)
  with cs show ?thesis
    by (auto simp: insert_in_batches_def)
qed

theorem insert_in_batches_partition_witness:
  "\<exists>chunks. insert_in_batches 2 log_batch [10, 20, 30, 40, 50 :: nat] [] = Some chunks
           \<and> concat chunks = [10, 20, 30, 40, 50]
           \<and> list_all (\<lambda>c. length c = 2) (butlast chunks)
           \<and> list_all (\<lambda>c. 1 \<le> length c \<and> length c \<le> 2) chunks"
  using insert_in_batches_partition[of 2 "[10, 20, 30, 40, 50 :: nat]"]
  by (auto simp: list_all_iff)

lemma insert_in_batches_example:
  "insert_in_batches 2 log_batch [10, 20, 30, 40, 50 :: nat] [] = Some [[10, 20], [30, 40], [50]]"
  by code_simp

subsection \<open>The remapping returned by a parent import\<close>

lemma remap_iff:
  assumes dk: "distinct (map key rows)"
    and de: "distinct (map ext data)"
    and nz: "\<forall>r \<in> set rows. idf r \<noteq> 0"
  shows "fst (match_by_key ikey ext warn (key_to_id_map key idf rows) data) e = Some n
           \<longleftrightarrow> (\<exists>item \<in> set data. ext item = e \<and> (\<exists>r \<in> set rows. key r = ikey item \<and> idf r = n))"
proof
  assume "fst (match_by_key ikey ext warn (key_to_id_map key idf rows) data) e = Some n"
  from match_by_key_SomeD[OF this]
  obtain item where "item \<in> set data" "ext item = e"
    "key_to_id_map key idf rows (ikey item) = Some n"
    by blast
  with key_to_id_map_SomeD[of key idf rows "ikey item" n]
  show "\<exists>item \<in> set data. ext item = e \<and> (\<exists>r \<in> set rows. key r = ikey item \<and> idf r = n)"
    by blast
next
  assume "\<exists>item \<in> set data. ext item = e \<and> (\<exists>r \<in> set rows. key r = ikey item \<and> idf r = n)"
  then obtain item r where i: "item \<in> set data" "ext item = e"
    and r: "r \<in> set rows" "key r = ikey item" "idf r = n"
    by blast
  have k: "key_to_id_map key idf rows (ikey item) = Some n"
    using key_to_id_map_distinct[OF dk r(1), of idf] r(2,3) by simp
  have "n \<noteq> 0" using nz r by auto
  with k have "resolves (key_to_id_map key idf rows) (ikey item)"
    by (simp add: resolves_def)
  with match_by_key_distinct[OF de i(1), of ikey warn "key_to_id_map key idf rows"] k i(2)
  show "fst (match_by_key ikey ext warn (key_to_id_map key idf rows) data) e = Some n"
    by simp
qed

lemma remap_not_found:
  assumes de: "distinct (map ext data)"
    and i: "item \<in> set data"
    and nf: "ikey item \<notin> key ` set rows"
  shows "warn (ikey item) \<in> set (snd (match_by_key ikey ext warn (key_to_id_map key idf rows) data))
           \<and> fst (match_by_key ikey ext warn (key_to_id_map key idf rows) data) (ext item) = None"
proof -
  have "key_to_id_map key idf rows (ikey item) = None"
    using nf by (simp add: key_to_id_map_None)
  then have nr: "\<not> resolves (key_to_id_map key idf rows) (ikey item)"
    by (simp add: resolves_def)
  with i have "warn (ikey item) \<in> set (snd (match_by_key ikey ext warn (key_to_id_map key idf rows) data))"
    by (auto simp: match_by_key_warnings)
  moreover have "fst (match_by_key ikey ext warn (key_to_id_map key idf rows) data) (ext item) = None"
    using match_by_key_distinct[OF de i, of ikey warn "key_to_id_map key idf rows"] nr by simp
  ultimately show ?thesis by simp
qed

text \<open>
  The remapping an import returns is the one built from the rows it reads back.
\<close>

lemma importCollections_remap:
  "importCollections db data = Some (db', collectionMap, warnings)
     \<Longrightarrow> (collectionMap, warnings) = buildCollectionMap (collections db') data"
  by (auto simp: importCollections_eq)

lemma importSubcollections_remap:
  "importSubcollections db data = Some (db', subcollectionMap, warnings)
     \<Longrightarrow> (subcollectionMap, warnings) = buildSubcollectionMap (subcollections db') data"
  by (auto simp: importSubcollections_eq)

lemma buildCollectionMap_apply:
  "fst (buildCollectionMap rows data) e =
     (case find (\<lambda>item. c_external_id item = e
                   \<and> resolves (key_to_id_map collections_slug collections_id rows) (c_slug item))
             (rev data) of
        None \<Rightarrow> None
      | Some item \<Rightarrow> key_to_id_map collections_slug collections_id rows (c_slug item))"
  by (simp add: buildCollectionMap_def match_by_key_map)

lemma buildSubcollectionMap_apply:
  "fst (buildSubcollectionMap rows data) e =
     (case find (\<lambda>item. sc_external_id item = e
                   \<and> resolves (key_to_id_map subcollection_row_key subcollections_id rows)
                        (subcollection_item_key item))
             (rev data) of
        None \<Rightarrow> None
      | Some item \<Rightarrow>
          key_to_id_map subcollection_row_key subcollections_id rows (subcollection_item_key item))"
  by (simp add: buildSubcollectionMap_def match_by_key_map)

lemma buildCollectionMap_warnings:
  "snd (buildCollectionMap rows data) =
     map (\<lambda>item. CollectionNotFoundAfterInsert (c_slug item))
       (filter (\<lambda>item. \<not> resolves (key_to_id_map collections_slug collections_id rows) (c_slug item))
          data)"
  by (simp add: buildCollectionMap_def match_by_key_warnings)

lemma buildSubcollectionMap_warnings:
  "snd (buildSubcollectionMap rows data) =
     map (\<lambda>item. SubcollectionNotFoundAfterInsert (subcollection_item_key item))
       (filter (\<lambda>item. \<not> resolves (key_to_id_map subcollection_row_key subcollections_id rows)
                          (subcollection_item_key item))
          data)"
  by (simp add: buildSubcollectionMap_def match_by_key_warnings)

text \<open>
  C4 (as amended). Let the natural keys of the rows read back be pairwise different,
  the external ids of the source records be pairwise different, and no row have id 0.
  Then the remapping built from them maps an external id to \<open>n\<close> exactly when a row
  whose natural key is that of the source record with this external id has id \<open>n\<close>;
  and for a source record whose natural key no row has, the warning is emitted and
  its external id has no entry. Collections are keyed by slug, subcollections by the
  composite of name and category slug.
\<close>

theorem remap_exact_for_unique_keys:
  "(distinct (map collections_slug allCollections) \<and> distinct (map c_external_id cdata)
      \<and> (\<forall>r \<in> set allCollections. collections_id r \<noteq> 0)
    \<longrightarrow> (\<forall>e n. fst (buildCollectionMap allCollections cdata) e = Some n
                  \<longleftrightarrow> (\<exists>item \<in> set cdata. c_external_id item = e
                         \<and> (\<exists>r \<in> set allCollections.
                               collections_slug r = c_slug item \<and> collections_id r = n)))
        \<and> (\<forall>item \<in> set cdata. c_slug item \<notin> collections_slug ` set allCollections
              \<longrightarrow> CollectionNotFoundAfterInsert (c_slug item)
                     \<in> set (snd (buildCollectionMap allCollections cdata))
                   \<and> fst (buildCollectionMap allCollections cdata) (c_external_id item) = None))
   \<and> (distinct (map subcollection_row_key allSubcollections) \<and> distinct (map sc_external_id sdata)
      \<and> (\<forall>r \<in> set allSubcollections. subcollections_id r \<noteq> 0)
    \<longrightarrow> (\<forall>e n. fst (buildSubcollectionMap allSubcollections sdata) e = Some n
                  \<longleftrightarrow> (\<exists>item \<in> set sdata. sc_external_id item = e
                         \<and> (\<exists>r \<in> set allSubcollections.
                               subcollection_row_key r = subcollection_item_key item
                               \<and> subcollections_id r = n)))
        \<and> (\<forall>item \<in> set sdata.
              subcollection_item_key item \<notin> subcollection_row_key ` set allSubcollections
              \<longrightarrow> SubcollectionNotFoundAfterInsert (subcollection_item_key item)
                     \<in> set (snd (buildSubcollectionMap allSubcollections sdata))
                   \<and> fst (buildSubcollectionMap allSubcollections sdata) (sc_external_id item) = None))"
proof -
  have bs: "buildSubcollectionMap allSubcollections sdata =
              match_by_key subcollection_item_key sc_external_id SubcollectionNotFoundAfterInsert
                (key_to_id_map subcollection_row_key subcollections_id allSubcollections) sdata"
    unfolding buildSubcollectionMap_def Let_def by (rule refl)
  have bc: "buildCollectionMap allCollections cdata =
              match_by_key c_slug c_external_id CollectionNotFoundAfterInsert
                (key_to_id_map collections_slug collections_id allCollections) cdata"
    unfolding buildCollectionMap_def Let_def by (rule refl)
  show ?thesis
    unfolding bs bc
    using remap_iff[of collections_slug allCollections c_external_id cdata collections_id c_slug
                       CollectionNotFoundAfterInsert]
          remap_not_found[of c_external_id cdata _ c_slug collections_slug allCollections
                             CollectionNotFoundAfterInsert collections_id]
          remap_iff[of subcollection_row_key allSubcollections sc_external_id sdata subcollections_id
                       subcollection_item_key SubcollectionNotFoundAfterInsert]
          remap_not_found[of sc_external_id sdata _ subcollection_item_key subcollection_row_key
                             allSubcollections SubcollectionNotFoundAfterInsert subcollections_id]
    by blast
qed

theorem remap_exact_for_unique_keys_witness:
  "fst (buildCollectionMap
          [\<lparr>collections_id = 1, collections_name = ''Art'', collections_slug = ''art''\<rparr>]
          [\<lparr>c_doc_id = ''d1'', c_creationTime = 0, c_external_id = 10, c_name = ''Art'',
            c_slug = ''art''\<rparr>,
           \<lparr>c_doc_id = ''d2'', c_creationTime = 0, c_external_id = 11, c_name = ''Toys'',
            c_slug = ''toys''\<rparr>]) 10 = Some 1
   \<and> CollectionNotFoundAfterInsert ''toys''
       \<in> set (snd (buildCollectionMap
          [\<lparr>collections_id = 1, collections_name = ''Art'', collections_slug = ''art''\<rparr>]
          [\<lparr>c_doc_id = ''d1'', c_creationTime = 0, c_external_id = 10, c_name = ''Art'',
            c_slug = ''art''\<rparr>,
           \<lparr>c_doc_id = ''d2'', c_creationTime = 0, c_external_id = 11, c_name = ''Toys'',
            c_slug = ''toys''\<rparr>]))
   \<and> fst (buildCollectionMap
          [\<lparr>collections_id = 1, collections_name = ''Art'', collections_slug = ''art''\<rparr>]
          [\<lparr>c_doc_id = ''d1'', c_creationTime = 0, c_external_id = 10, c_name = ''Art'',
            c_slug = ''art''\<rparr>,
           \<lparr>c_doc_id = ''d2'', c_creationTime = 0, c_external_id = 11, c_name = ''Toys'',
            c_slug = ''toys''\<rparr>]) 11 = None
   \<and> fst (buildSubcollectionMap
          [\<lparr>subcollections_id = 4, subcollections_name = ''Pens'',
            subcollections_category_slug = ''office''\<rparr>]
          [\<lparr>sc_doc_id = ''d3'', sc_creationTime = 0, sc_external_id = 20,
            sc_category_slug = ''office'', sc_name = ''Pens''\<rparr>,
           \<lparr>sc_doc_id = ''d4'', sc_creationTime = 0, sc_external_id = 21,
            sc_category_slug = ''office'', sc_name = ''Inks''\<rparr>]) 20 = Some 4
   \<and> SubcollectionNotFoundAfterInsert ''Inks::office''
       \<in> set (snd (buildSubcollectionMap
          [\<lparr>subcollections_id = 4, subcollections_name = ''Pens'',
            subcollections_category_slug = ''office''\<rparr>]
          [\<lparr>sc_doc_id = ''d3'', sc_creationTime = 0, sc_external_id = 20,
            sc_category_slug = ''office'', sc_name = ''Pens''\<rparr>,
           \<lparr>sc_doc_id = ''d4'', sc_creationTime = 0, sc_external_id = 21,
            sc_category_slug = ''office'', sc_name = ''Inks''\<rparr>]))
   \<and> fst (buildSubcollectionMap
          [\<lparr>subcollections_id = 4, subcollections_name = ''Pens'',
            subcollections_category_slug = ''office''\<rparr>]
          [\<lparr>sc_doc_id = ''d3'', sc_creationTime = 0, sc_external_id = 20,
            sc_category_slug = ''office'', sc_name = ''Pens''\<rparr>,
           \<lparr>sc_doc_id = ''d4'', sc_creationTime = 0, sc_external_id = 21,
            sc_category_slug = ''office'', sc_name = ''Inks''\<rparr>]) 21 = None"
  using remap_exact_for_unique_keys
    [of "[\<lparr>collections_id = 1, collections_name = ''Art'', collections_slug = ''art''\<rparr>]"
        "[\<lparr>c_doc_id = ''d1'', c_creationTime = 0, c_external_id = 10, c_name = ''Art'',
            c_slug = ''art''\<rparr>,
           \<lparr>c_doc_id = ''d2'', c_creationTime = 0, c_external_id = 11, c_name = ''Toys'',
            c_slug = ''toys''\<rparr>]"
        "[\<lparr>subcollections_id = 4, subcollections_name = ''Pens'',
            subcollections_category_slug = ''office''\<rparr>]"
        "[\<lparr>sc_doc_id = ''d3'', sc_creationTime = 0, sc_external_id = 20,
            sc_category_slug = ''office'', sc_name = ''Pens''\<rparr>,
           \<lparr>sc_doc_id = ''d4'', sc_creationTime = 0, sc_external_id = 21,
            sc_category_slug = ''office'', sc_name = ''Inks''\<rparr>]"]
  by (simp add: subcollection_row_key_def subcollection_item_key_def subcollection_key_def)


text \<open>
  As the claim is written, without those conditions, it fails: two source
  subcollections of the same name and category slug are both inserted, the rows get
  ids 1 and 2, and both external ids are mapped to 2, although the row of id 1 has the
  natural key of the first record.
\<close>

theorem remap_duplicate_key_counterexample:
  "\<exists>db' m w.
      importSubcollections empty_store
        [\<lparr>sc_doc_id = ''d1'', sc_creationTime = 0, sc_external_id = 1,
          sc_category_slug = ''office'', sc_name = ''Pens''\<rparr>,
         \<lparr>sc_doc_id = ''d2'', sc_creationTime = 0, sc_external_id = 2,
          sc_category_slug = ''office'', sc_name = ''Pens''\<rparr>] = Some (db', m, w)
      \<and> \<not> (\<forall>e n. m e = Some n \<longleftrightarrow>
               (\<exists>item \<in> set [\<lparr>sc_doc_id = ''d1'', sc_creationTime = 0, sc_external_id = 1,
                                sc_category_slug = ''office'', sc_name = ''Pens''\<rparr>,
                               \<lparr>sc_doc_id = ''d2'', sc_creationTime = 0, sc_external_id = 2,
                                sc_category_slug = ''office'', sc_name = ''Pens''\<rparr>].
                   sc_external_id item = e
                   \<and> (\<exists>r \<in> set (subcollections db').
                         subcollection_row_key r = subcollection_item_key item
                         \<and> subcollections_id r = n)))"
proof -
  let ?data = "[\<lparr>sc_doc_id = ''d1'', sc_creationTime = 0, sc_external_id = 1,
                  sc_category_slug = ''office'', sc_name = ''Pens''\<rparr>,
                \<lparr>sc_doc_id = ''d2'', sc_creationTime = 0, sc_external_id = 2,
                  sc_category_slug = ''office'', sc_name = ''Pens''\<rparr>]"
  let ?rows = "[\<lparr>subcollections_id = 1, subcollections_name = ''Pens'',
                  subcollections_category_slug = ''office''\<rparr>,
                \<lparr>subcollections_id = 2, subcollections_name = ''Pens'',
                  subcollections_category_slug = ''office''\<rparr>]"
  let ?db = "insert_subcollections
               (map (\<lambda>item. \<lparr>scv_name = sc_name item, scv_category_slug = sc_category_slug item\<rparr>)
                  ?data) empty_store"
  have rows: "subcollections ?db = ?rows"
    by (simp add: insert_subcollections_def empty_store_def)
  have run: "importSubcollections empty_store ?data
               = Some (?db, fst (buildSubcollectionMap ?rows ?data),
                       snd (buildSubcollectionMap ?rows ?data))"
    unfolding importSubcollections_eq rows by simp
  have m1: "fst (buildSubcollectionMap ?rows ?data) 1 = Some 2"
    by (simp add: buildSubcollectionMap_apply key_to_id_map_find resolves_def
          subcollection_row_key_def subcollection_item_key_def subcollection_key_def)
  have row1: "\<exists>item \<in> set ?data. sc_external_id item = 1
                \<and> (\<exists>r \<in> set (subcollections ?db).
                      subcollection_row_key r = subcollection_item_key item
                      \<and> subcollections_id r = 1)"
    unfolding rows
    by (simp add: subcollection_row_key_def subcollection_item_key_def subcollection_key_def)
  have "\<not> (\<forall>e n. fst (buildSubcollectionMap ?rows ?data) e = Some n \<longleftrightarrow>
               (\<exists>item \<in> set ?data. sc_external_id item = e
                   \<and> (\<exists>r \<in> set (subcollections ?db).
                         subcollection_row_key r = subcollection_item_key item
                         \<and> subcollections_id r = n)))"
  proof
    assume "\<forall>e n. fst (buildSubcollectionMap ?rows ?data) e = Some n \<longleftrightarrow>
               (\<exists>item \<in> set ?data. sc_external_id item = e
                   \<and> (\<exists>r \<in> set (subcollections ?db).
                         subcollection_row_key r = subcollection_item_key item
                         \<and> subcollections_id r = n))"
    with row1 have "fst (buildSubcollectionMap ?rows ?data) 1 = Some 1" by blast
    with m1 show False by simp
  qed
  with run show ?thesis by blast
qed

subsection \<open>Children whose parent does not resolve\<close>

lemma buildCollectionMap_ran:
  assumes "fst (buildCollectionMap rows data) e = Some n"
  shows "\<exists>c \<in> set rows. collections_id c = n"
proof -
  from assms have "fst (match_by_key c_slug c_external_id CollectionNotFoundAfterInsert
                     (key_to_id_map collections_slug collections_id rows) data) e = Some n"
    by (simp add: buildCollectionMap_def)
  from match_by_key_SomeD[OF this] obtain item :: ConvexCollection where
    "key_to_id_map collections_slug collections_id rows (c_slug item) = Some n" by blast
  from key_to_id_map_SomeD[OF this] show ?thesis by blast
qed

lemma buildSubcollectionMap_ran:
  assumes "fst (buildSubcollectionMap rows data) e = Some n"
  shows "\<exists>c \<in> set rows. subcollections_id c = n"
proof -
  from assms have "fst (match_by_key subcollection_item_key sc_external_id
                     SubcollectionNotFoundAfterInsert
                     (key_to_id_map subcollection_row_key subcollections_id rows) data) e = Some n"
    by (simp add: buildSubcollectionMap_def)
  from match_by_key_SomeD[OF this] obtain item :: ConvexSubcollection where
    "key_to_id_map subcollection_row_key subcollections_id rows (subcollection_item_key item) = Some n"
    by blast
  from key_to_id_map_SomeD[OF this] show ?thesis by blast
qed

lemma resolvesD: "resolves m k \<Longrightarrow> \<exists>n. m k = Some n \<and> n \<noteq> 0"
  by (auto simp: resolves_def split: option.splits)

lemma categories_resolved:
  assumes c: "importCollections db0 cdata = Some (db1, collectionMap, w1)"
    and k: "importCategories db1 collectionMap data = Some (db2, w2)"
  shows "categories db2 = categories db1
           @ map (\<lambda>item. category_row (the (collectionMap (cat_collection_id item))) item)
               (filter (\<lambda>item. resolves collectionMap (cat_collection_id item)) data)"
    and "w2 = map (\<lambda>item. CollectionIdNotFound (cat_collection_id item) (cat_slug item))
               (filter (\<lambda>item. \<not> resolves collectionMap (cat_collection_id item)) data)"
    and "\<forall>r \<in> set (drop (length (categories db1)) (categories db2)).
           \<exists>c \<in> set (collections db2). collections_id c = categories_collection_id r"
proof -
  from k have db2: "db2 = insert_categories
            (map (\<lambda>item. category_row (the (collectionMap (cat_collection_id item))) item)
               (filter (\<lambda>item. resolves collectionMap (cat_collection_id item)) data)) db1"
    and w2: "w2 = map (\<lambda>item. CollectionIdNotFound (cat_collection_id item) (cat_slug item))
               (filter (\<lambda>item. \<not> resolves collectionMap (cat_collection_id item)) data)"
    by (simp_all add: importCategories_eq)
  show cats: "categories db2 = categories db1
           @ map (\<lambda>item. category_row (the (collectionMap (cat_collection_id item))) item)
               (filter (\<lambda>item. resolves collectionMap (cat_collection_id item)) data)"
    by (simp add: db2 insert_categories_def)
  show "w2 = map (\<lambda>item. CollectionIdNotFound (cat_collection_id item) (cat_slug item))
               (filter (\<lambda>item. \<not> resolves collectionMap (cat_collection_id item)) data)"
    by (rule w2)
  have same: "collections db2 = collections db1"
    by (simp add: db2 insert_categories_def)
  have m: "collectionMap = fst (buildCollectionMap (collections db1) cdata)"
    using importCollections_remap[OF c] by (metis fst_conv)
  show "\<forall>r \<in> set (drop (length (categories db1)) (categories db2)).
           \<exists>c \<in> set (collections db2). collections_id c = categories_collection_id r"
  proof
    fix r assume "r \<in> set (drop (length (categories db1)) (categories db2))"
    then obtain item where "resolves collectionMap (cat_collection_id item)"
      and r: "r = category_row (the (collectionMap (cat_collection_id item))) item"
      by (auto simp: cats)
    from resolvesD[OF this(1)] obtain n where n: "collectionMap (cat_collection_id item) = Some n"
      by blast
    then have "categories_collection_id r = n" by (simp add: r category_row_def)
    moreover from n m buildCollectionMap_ran have "\<exists>c \<in> set (collections db1). collections_id c = n"
      by metis
    ultimately show "\<exists>c \<in> set (collections db2). collections_id c = categories_collection_id r"
      by (simp add: same)
  qed
qed

lemma subcategories_resolved:
  assumes c: "importSubcollections db0 sdata = Some (db1, subcollectionMap, w1)"
    and k: "importSubcategories db1 subcollectionMap data = Some (db2, w2)"
  shows "subcategories db2 = subcategories db1
           @ map (\<lambda>item. subcategory_row (the (subcollectionMap (sub_subcollection_id item))) item)
               (filter (\<lambda>item. resolves subcollectionMap (sub_subcollection_id item)) data)"
    and "w2 = map (\<lambda>item. SubcollectionIdNotFound (sub_subcollection_id item) (sub_slug item))
               (filter (\<lambda>item. \<not> resolves subcollectionMap (sub_subcollection_id item)) data)"
    and "\<forall>r \<in> set (drop (length (subcategories db1)) (subcategories db2)).
           \<exists>c \<in> set (subcollections db2). subcollections_id c = subcategories_subcollection_id r"
proof -
  from k have db2: "db2 = insert_subcategories
            (map (\<lambda>item. subcategory_row (the (subcollectionMap (sub_subcollection_id item))) item)
               (filter (\<lambda>item. resolves subcollectionMap (sub_subcollection_id item)) data)) db1"
    and w2: "w2 = map (\<lambda>item. SubcollectionIdNotFound (sub_subcollection_id item) (sub_slug item))
               (filter (\<lambda>item. \<not> resolves subcollectionMap (sub_subcollection_id item)) data)"
    by (simp_all add: importSubcategories_eq)
  show cats: "subcategories db2 = subcategories db1
           @ map (\<lambda>item. subcategory_row (the (subcollectionMap (sub_subcollection_id item))) item)
               (filter (\<lambda>item. resolves subcollectionMap (sub_subcollection_id item)) data)"
    by (simp add: db2 insert_subcategories_def)
  show "w2 = map (\<lambda>item. SubcollectionIdNotFound (sub_subcollection_id item) (sub_slug item))
               (filter (\<lambda>item. \<not> resolves subcollectionMap (sub_subcollection_id item)) data)"
    by (rule w2)
  have same: "subcollections db2 = subcollections db1"
    by (simp add: db2 insert_subcategories_def)
  have m: "subcollectionMap = fst (buildSubcollectionMap (subcollections db1) sdata)"
    using importSubcollections_remap[OF c] by (metis fst_conv)
  show "\<forall>r \<in> set (drop (length (subcategories db1)) (subcategories db2)).
           \<exists>c \<in> set (subcollections db2). subcollections_id c = subcategories_subcollection_id r"
  proof
    fix r assume "r \<in> set (drop (length (subcategories db1)) (subcategories db2))"
    then obtain item where "resolves subcollectionMap (sub_subcollection_id item)"
      and r: "r = subcategory_row (the (subcollectionMap (sub_subcollection_id item))) item"
      by (auto simp: cats)
    from resolvesD[OF this(1)] obtain n where
      n: "subcollectionMap (sub_subcollection_id item) = Some n"
      by blast
    then have "subcategories_subcollection_id r = n" by (simp add: r subcategory_row_def)
    moreover from n m buildSubcollectionMap_ran
    have "\<exists>c \<in> set (subcollections db1). subcollections_id c = n"
      by metis
    ultimately show
      "\<exists>c \<in> set (subcollections db2). subcollections_id c = subcategories_subcollection_id r"
      by (simp add: same)
  qed
qed

text \<open>
  C1 (as amended). Categories and subcategories name their parent by its external
  id. In their imports, every record whose parent id has no truthy entry in the
  parent's remapping is dropped before insertion, with one warning, and the rows
  inserted are those of the other records, in order, each carrying the id that the
  remapping gives; with the remapping returned by the parent's import, that id is the
  id of a row of the parent table.
\<close>

theorem id_children_resolve_parent:
  "(importCollections db0 cdata = Some (db1, collectionMap, w1)
      \<and> importCategories db1 collectionMap data = Some (db2, w2)
    \<longrightarrow> categories db2 = categories db1
           @ map (\<lambda>item. category_row (the (collectionMap (cat_collection_id item))) item)
               (filter (\<lambda>item. resolves collectionMap (cat_collection_id item)) data)
        \<and> w2 = map (\<lambda>item. CollectionIdNotFound (cat_collection_id item) (cat_slug item))
                 (filter (\<lambda>item. \<not> resolves collectionMap (cat_collection_id item)) data)
        \<and> (\<forall>r \<in> set (drop (length (categories db1)) (categories db2)).
              \<exists>c \<in> set (collections db2). collections_id c = categories_collection_id r))
   \<and> (importSubcollections db3 sdata = Some (db4, subcollectionMap, w4)
      \<and> importSubcategories db4 subcollectionMap sub_data = Some (db5, w5)
    \<longrightarrow> subcategories db5 = subcategories db4
           @ map (\<lambda>item. subcategory_row (the (subcollectionMap (sub_subcollection_id item))) item)
               (filter (\<lambda>item. resolves subcollectionMap (sub_subcollection_id item)) sub_data)
        \<and> w5 = map (\<lambda>item. SubcollectionIdNotFound (sub_subcollection_id item) (sub_slug item))
                 (filter (\<lambda>item. \<not> resolves subcollectionMap (sub_subcollection_id item)) sub_data)
        \<and> (\<forall>r \<in> set (drop (length (subcategories db4)) (subcategories db5)).
              \<exists>c \<in> set (subcollections db5).
                 subcollections_id c = subcategories_subcollection_id r))"
  using categories_resolved[of db0 cdata db1 collectionMap w1 data db2 w2]
        subcategories_resolved[of db3 sdata db4 subcollectionMap w4 sub_data db5 w5]
  by blast

theorem id_children_resolve_parent_witness:
  "\<exists>db1 m w1 db2 w2 db4 m' w4 db5 w5.
      importCollections empty_store
        [\<lparr>c_doc_id = ''d1'', c_creationTime = 0, c_external_id = 1, c_name = ''A'',
          c_slug = ''a''\<rparr>] = Some (db1, m, w1)
      \<and> importCategories db1 m
          [\<lparr>cat_doc_id = ''d2'', cat_creationTime = 0, cat_collection_id = 1, cat_name = ''A1'',
            cat_slug = ''a1'', cat_image_url = None\<rparr>,
           \<lparr>cat_doc_id = ''d3'', cat_creationTime = 0, cat_collection_id = 9, cat_name = ''Z'',
            cat_slug = ''zz'', cat_image_url = None\<rparr>] = Some (db2, w2)
      \<and> categories db2 =
          [\<lparr>categories_slug = ''a1'', categories_name = ''A1'', categories_collection_id = 1,
            categories_image_url = None\<rparr>]
      \<and> map collections_id (collections db2) = [1]
      \<and> w2 = [CollectionIdNotFound 9 ''zz'']
      \<and> importSubcollections db2
          [\<lparr>sc_doc_id = ''d4'', sc_creationTime = 0, sc_external_id = 5,
            sc_category_slug = ''a1'', sc_name = ''S''\<rparr>] = Some (db4, m', w4)
      \<and> importSubcategories db4 m'
          [\<lparr>sub_doc_id = ''d5'', sub_creationTime = 0, sub_subcollection_id = 5,
            sub_name = ''S1'', sub_slug = ''s1'', sub_image_url = None\<rparr>,
           \<lparr>sub_doc_id = ''d6'', sub_creationTime = 0, sub_subcollection_id = 6,
            sub_name = ''S2'', sub_slug = ''s2'', sub_image_url = None\<rparr>] = Some (db5, w5)
      \<and> subcategories db5 =
          [\<lparr>subcategories_slug = ''s1'', subcategories_name = ''S1'',
            subcategories_subcollection_id = 1, subcategories_image_url = None\<rparr>]
      \<and> map subcollections_id (subcollections db5) = [1]
      \<and> w5 = [SubcollectionIdNotFound 6 ''s2'']"
proof -
  let ?cdata = "[\<lparr>c_doc_id = ''d1'', c_creationTime = 0, c_external_id = 1, c_name = ''A'',
                   c_slug = ''a''\<rparr>]"
  let ?data = "[\<lparr>cat_doc_id = ''d2'', cat_creationTime = 0, cat_collection_id = 1,
                  cat_name = ''A1'', cat_slug = ''a1'', cat_image_url = None\<rparr>,
                \<lparr>cat_doc_id = ''d3'', cat_creationTime = 0, cat_collection_id = 9,
                  cat_name = ''Z'', cat_slug = ''zz'', cat_image_url = None\<rparr>]"
  let ?sdata = "[\<lparr>sc_doc_id = ''d4'', sc_creationTime = 0, sc_external_id = 5,
                   sc_category_slug = ''a1'', sc_name = ''S''\<rparr>]"
  let ?sub = "[\<lparr>sub_doc_id = ''d5'', sub_creationTime = 0, sub_subcollection_id = 5,
                 sub_name = ''S1'', sub_slug = ''s1'', sub_image_url = None\<rparr>,
               \<lparr>sub_doc_id = ''d6'', sub_creationTime = 0, sub_subcollection_id = 6,
                 sub_name = ''S2'', sub_slug = ''s2'', sub_image_url = None\<rparr>]"
  let ?db1 = "insert_collections [\<lparr>cv_name = ''A'', cv_slug = ''a''\<rparr>] empty_store"
  let ?m = "fst (buildCollectionMap (collections ?db1) ?cdata)"
  let ?w1 = "snd (buildCollectionMap (collections ?db1) ?cdata)"
  have c: "importCollections empty_store ?cdata = Some (?db1, ?m, ?w1)"
    by (simp add: importCollections_eq)
  have m1: "?m 1 = Some 1" and m9: "?m 9 = None"
    by (simp_all add: insert_collections_def empty_store_def buildCollectionMap_apply
          key_to_id_map_find resolves_def)
  let ?db2 = "insert_categories
                [\<lparr>categories_slug = ''a1'', categories_name = ''A1'', categories_collection_id = 1,
                  categories_image_url = None\<rparr>] ?db1"
  let ?w2 = "[CollectionIdNotFound 9 ''zz'']"
  have k: "importCategories ?db1 ?m ?data = Some (?db2, ?w2)"
    unfolding importCategories_eq
    by (simp add: m1 m9 resolves_def category_row_def or_null_def)
  let ?db4 = "insert_subcollections [\<lparr>scv_name = ''S'', scv_category_slug = ''a1''\<rparr>] ?db2"
  let ?n = "fst (buildSubcollectionMap (subcollections ?db4) ?sdata)"
  let ?w4 = "snd (buildSubcollectionMap (subcollections ?db4) ?sdata)"
  have s: "importSubcollections ?db2 ?sdata = Some (?db4, ?n, ?w4)"
    by (simp add: importSubcollections_eq)
  have m5: "?n 5 = Some 1" and m6: "?n 6 = None"
    by (simp_all add: insert_subcollections_def insert_categories_def insert_collections_def
          empty_store_def buildSubcollectionMap_apply
          key_to_id_map_find resolves_def subcollection_row_key_def subcollection_item_key_def
          subcollection_key_def)
  let ?db5 = "insert_subcategories
                [\<lparr>subcategories_slug = ''s1'', subcategories_name = ''S1'',
                  subcategories_subcollection_id = 1, subcategories_image_url = None\<rparr>] ?db4"
  let ?w5 = "[SubcollectionIdNotFound 6 ''s2'']"
  have u: "importSubcategories ?db4 ?n ?sub = Some (?db5, ?w5)"
    unfolding importSubcategories_eq
    by (simp add: m5 m6 resolves_def subcategory_row_def or_null_def)
  note inst = id_children_resolve_parent[of empty_store ?cdata ?db1 ?m ?w1 ?data ?db2 ?w2
                                           ?db2 ?sdata ?db4 ?n ?w4 ?sub ?db5 ?w5]
  have r1: "categories ?db2 =
          [\<lparr>categories_slug = ''a1'', categories_name = ''A1'', categories_collection_id = 1,
            categories_image_url = None\<rparr>]"
    using inst c k
    by (simp add: m1 m9 resolves_def category_row_def or_null_def insert_categories_def
          insert_collections_def empty_store_def)
  have r3: "subcategories ?db5 =
          [\<lparr>subcategories_slug = ''s1'', subcategories_name = ''S1'',
            subcategories_subcollection_id = 1, subcategories_image_url = None\<rparr>]"
    using inst s u
    by (simp add: m5 m6 resolves_def subcategory_row_def or_null_def insert_categories_def
          insert_collections_def insert_subcollections_def insert_subcategories_def
          empty_store_def)
  have cols2: "map collections_id (collections ?db2) = [1]"
    by (simp add: insert_categories_def insert_collections_def empty_store_def)
  have subs5: "map subcollections_id (subcollections ?db5) = [1]"
    by (simp add: insert_categories_def insert_collections_def insert_subcollections_def
          insert_subcategories_def empty_store_def)
  show ?thesis
    apply (rule exI[of _ ?db1], rule exI[of _ ?m], rule exI[of _ ?w1])
    apply (rule exI[of _ ?db2], rule exI[of _ ?w2])
    apply (rule exI[of _ ?db4], rule exI[of _ ?n], rule exI[of _ ?w4])
    apply (rule exI[of _ ?db5], rule exI[of _ ?w5])
    using c k s u r1 r3 cols2 subs5 by (intro conjI) (assumption | rule refl)+
qed

text \<open>
  Subcollections and products name their parent by its slug, and their imports insert
  every record without looking the slug up.
\<close>

lemma slug_children_all_inserted:
  "importSubcollections db sdata = Some (db', m, w)
     \<Longrightarrow> map subcollections_category_slug (subcollections db')
           = map subcollections_category_slug (subcollections db) @ map sc_category_slug sdata"
  "importProducts db pdata = Some db''
     \<Longrightarrow> products db'' = products db @ map product_of pdata"
proof -
  have n: "map subcollections_category_slug (number_subcollections k vs) = map scv_category_slug vs"
    for k vs
    by (induction vs arbitrary: k) simp_all
  show "importSubcollections db sdata = Some (db', m, w)
     \<Longrightarrow> map subcollections_category_slug (subcollections db')
           = map subcollections_category_slug (subcollections db) @ map sc_category_slug sdata"
    by (auto simp: importSubcollections_eq insert_subcollections_def n comp_def)
  show "importProducts db pdata = Some db''
     \<Longrightarrow> products db'' = products db @ map product_of pdata"
    by (auto simp: importProducts_eq insert_products_def)
qed

text \<open>
  So the claim as written fails for products: a product whose \<open>subcategory_slug\<close> is
  the slug of no subcategory is inserted.
\<close>

theorem dangling_product_counterexample:
  "\<exists>db'. importProducts empty_store
            [\<lparr>p_doc_id = ''d1'', p_creationTime = 0, p_name = ''Lamp'', p_slug = ''lamp'',
              p_description = ''A lamp'', p_price = 5, p_subcategory_slug = ''x'',
              p_image_url = None\<rparr>] = Some db'
         \<and> products db' =
            [\<lparr>products_slug = ''lamp'', products_name = ''Lamp'', products_description = ''A lamp'',
              products_price = 5, products_subcategory_slug = ''x'', products_image_url = None\<rparr>]
         \<and> subcategories db' = []"
  by (simp add: importProducts_eq insert_products_def product_of_def or_null_def empty_store_def)

section \<open>Properties of the record readers\<close>

lemma read_loop_parse_lines:
  "read_loop P ls data =
     (case parse_lines P (filter (\<lambda>line. trim line \<noteq> []) ls) of
        Inl e \<Rightarrow> Inl e | Inr rs \<Rightarrow> Inr (data @ rs))"
  by (induction ls arbitrary: data) (auto split: sum.splits)

lemma split_on_nonempty: "split_on sep s \<noteq> []"
  by (induction s) (auto split: list.splits)

lemma split_on_append_plain:
  "sep \<notin> set cur \<Longrightarrow>
     split_on sep (cur @ cs) = (cur @ hd (split_on sep cs)) # tl (split_on sep cs)"
  by (induction cur) (auto split: list.splits simp: split_on_nonempty)

lemma split_on_sep: "split_on sep (sep # cs) = [] # split_on sep cs"
  by simp

lemma trim_empty_iff: "trim s = [] \<longleftrightarrow> (\<forall>c \<in> set s. is_js_whitespace c)"
proof -
  have "dropWhile is_js_whitespace (rev (dropWhile is_js_whitespace s)) = []
          \<longleftrightarrow> dropWhile is_js_whitespace s = []"
  proof
    assume "dropWhile is_js_whitespace (rev (dropWhile is_js_whitespace s)) = []"
    then have a: "\<forall>c \<in> set (dropWhile is_js_whitespace s). is_js_whitespace c"
      by simp
    show "dropWhile is_js_whitespace s = []"
    proof (rule ccontr)
      assume "dropWhile is_js_whitespace s \<noteq> []"
      then have "\<not> is_js_whitespace (hd (dropWhile is_js_whitespace s))"
        by (rule hd_dropWhile)
      moreover have "hd (dropWhile is_js_whitespace s) \<in> set (dropWhile is_js_whitespace s)"
        using \<open>dropWhile is_js_whitespace s \<noteq> []\<close> by simp
      ultimately show False using a by blast
    qed
  qed (auto dest: set_dropWhileD)
  then show ?thesis
    by (auto simp: trim_def dest: set_dropWhileD)
qed

lemma blank_snoc_CR: "trim (l @ [CR]) = [] \<longleftrightarrow> trim l = []"
  by (auto simp: trim_empty_iff is_js_whitespace_def CR_def)


lemma every_CR_before_LF_tl: "every_CR_before_LF (c # cs) \<Longrightarrow> every_CR_before_LF cs"
  by (cases cs) simp_all

lemma every_CR_before_LF_CR:
  "every_CR_before_LF (CR # cs) \<Longrightarrow> \<exists>cs'. cs = LF # cs' \<and> every_CR_before_LF cs'"
  by (cases cs) (auto dest: every_CR_before_LF_tl)

lemma CR_neq_LF: "CR \<noteq> LF"
  by (simp add: CR_def LF_def)

lemma stream_lines_eager_lines:
  assumes tr: "\<And>l. P (l @ [CR]) = P l"
  shows "every_CR_before_LF cs \<Longrightarrow> LF \<notin> set cur \<Longrightarrow> CR \<notin> set cur \<Longrightarrow>
           parse_lines P (filter (\<lambda>line. trim line \<noteq> []) (readline_lines cur cs))
             = parse_lines P (filter (\<lambda>line. trim line \<noteq> []) (split_on LF (cur @ cs)))"
proof (induction cur cs rule: readline_lines.induct)
  case (1 cur)
  have "split_on LF (cur @ []) = [cur]"
    using split_on_append_plain[OF "1.prems"(2), of "[]"] by simp
  then show ?case
    by (auto simp: trim_def)
next
  case (2 cur c cs)
  show ?case
  proof (cases "c = LF")
    case True
    have "split_on LF (cur @ c # cs) = cur # split_on LF cs"
      using split_on_append_plain[OF "2.prems"(2), of "c # cs"] True by simp
    moreover have "parse_lines P (filter (\<lambda>line. trim line \<noteq> []) (readline_lines [] cs))
             = parse_lines P (filter (\<lambda>line. trim line \<noteq> []) (split_on LF ([] @ cs)))"
      using "2.IH"(1)[OF True] every_CR_before_LF_tl[OF "2.prems"(1)] by simp
    ultimately show ?thesis
      using True by (simp cong: sum.case_cong)
  next
    case nLF: False
    show ?thesis
    proof (cases "c = CR")
      case True
      with "2.prems"(1) obtain cs' where cs': "cs = LF # cs'" "every_CR_before_LF cs'"
        using every_CR_before_LF_CR by blast
      have "LF \<notin> set (cur @ [CR])"
        using "2.prems"(2) CR_neq_LF by auto
      from split_on_append_plain[OF this, of "LF # cs'"]
      have sp: "split_on LF (cur @ c # cs) = (cur @ [CR]) # split_on LF cs'"
        using True cs'(1) by simp
      have "parse_lines P (filter (\<lambda>line. trim line \<noteq> []) (readline_lines [] cs'))
             = parse_lines P (filter (\<lambda>line. trim line \<noteq> []) (split_on LF ([] @ cs')))"
        using "2.IH"(2)[OF nLF True] cs' by simp
      then show ?thesis
        using True nLF cs'(1) sp by (simp add: blank_snoc_CR tr CR_neq_LF cong: sum.case_cong)
    next
      case False
      have "parse_lines P (filter (\<lambda>line. trim line \<noteq> []) (readline_lines (cur @ [c]) cs))
             = parse_lines P (filter (\<lambda>line. trim line \<noteq> []) (split_on LF ((cur @ [c]) @ cs)))"
        using "2.IH"(3)[OF nLF False] "2.prems" nLF False every_CR_before_LF_tl by auto
      then show ?thesis
        using nLF False by simp
    qed
  qed
qed

text \<open>
  C6 (as amended). Let every CR of the content be immediately followed by LF, and let
  \<open>JSON.parse\<close> give the same result with and without a CR at the end of its text.
  Then the streaming reader and the eager reader return the same: the records parsed
  from the non-blank lines (the pieces between LFs whose \<open>trim()\<close> is not empty), in
  file order, or the \<open>SyntaxError\<close> of the first such line that does not parse.
\<close>

theorem readers_agree:
  assumes "\<forall>l. JSON_parse (l @ [CR]) = JSON_parse l"
    and "every_CR_before_LF content"
  shows "readJSONLStream JSON_parse content = readJSONL JSON_parse content
         \<and> readJSONL JSON_parse content
             = parse_lines JSON_parse (filter (\<lambda>line. trim line \<noteq> []) (split_on LF content))"
proof -
  have "parse_lines JSON_parse (filter (\<lambda>line. trim line \<noteq> []) (readline_lines [] content))
          = parse_lines JSON_parse (filter (\<lambda>line. trim line \<noteq> []) (split_on LF ([] @ content)))"
    using assms by (intro stream_lines_eager_lines) simp_all
  then show ?thesis
    by (simp add: readJSONLStream_def readJSONL_def read_loop_parse_lines split: sum.splits)
qed

lemma trim_snoc_space:
  assumes "P w"
  shows "rev (dropWhile P (rev (dropWhile P (l @ [w])))) = rev (dropWhile P (rev (dropWhile P l)))"
proof (cases "\<forall>c \<in> set l. P c")
  case True
  have "dropWhile P l = []"
    using True by auto
  moreover have "dropWhile P (l @ [w]) = []"
    using True assms by auto
  ultimately show ?thesis by (simp only:)
next
  case False
  then obtain x where "x \<in> set l" "\<not> P x" by blast
  then have "dropWhile P (l @ [w]) = dropWhile P l @ [w]"
    by (rule dropWhile_append1)
  then show ?thesis using assms by simp
qed

lemma parse_nat_literal_CR: "\<forall>l. parse_nat_literal (l @ [CR]) = parse_nat_literal l"
proof -
  have "is_json_whitespace CR"
    by (simp add: is_json_whitespace_def CR_def)
  then show ?thesis
    by (simp add: parse_nat_literal_def trim_snoc_space)
qed

lemma readJSONL_example:
  "readJSONL parse_nat_literal
     [CHR ''1'', CR, LF, CHR ''2'', CHR ''0'', LF, CHR '' '', LF, LF, CHR ''7''] = Inr [1, 20, 7]"
  by code_simp

theorem readers_agree_witness:
  "readJSONLStream parse_nat_literal
     [CHR ''1'', CR, LF, CHR ''2'', CHR ''0'', LF, CHR '' '', LF, LF, CHR ''7''] = Inr [1, 20, 7]
   \<and> readJSONL parse_nat_literal
     [CHR ''1'', CR, LF, CHR ''2'', CHR ''0'', LF, CHR '' '', LF, LF, CHR ''7''] = Inr [1, 20, 7]"
proof -
  have "every_CR_before_LF
          [CHR ''1'', CR, LF, CHR ''2'', CHR ''0'', LF, CHR '' '', LF, LF, CHR ''7'']"
    by (simp add: CR_def LF_def)
  from readers_agree[OF parse_nat_literal_CR this] readJSONL_example
  show ?thesis by simp
qed

text \<open>
  Without the condition on CR the readers differ: a CR that no LF follows ends a
  line for \<open>readline\<close> and not for \<open>split("\n")\<close>. On the content \<open>1 CR 2\<close> the eager
  reader parses the one line \<open>1 CR 2\<close> and fails, the streaming reader returns the
  records 1 and 2.
\<close>

theorem lone_CR_counterexample:
  "readJSONL parse_nat_literal [CHR ''1'', CR, CHR ''2''] = Inl SyntaxError
   \<and> readJSONLStream parse_nat_literal [CHR ''1'', CR, CHR ''2''] = Inr [1, 2]"
  by code_simp

section \<open>Properties of the search\<close>

subsection \<open>\<open>LIKE\<close>: case folding and C strings\<close>

lemma of_char_ascii_lower:
  "(of_char (ascii_lower c) :: nat)
     = (if 65 \<le> (of_char c :: nat) \<and> (of_char c :: nat) \<le> 90 then of_char c + 32
        else of_char c)"
  by (simp add: ascii_lower_def)

lemma ascii_lower_idem: "ascii_lower (ascii_lower c) = ascii_lower c"
proof -
  have "(of_char (ascii_lower (ascii_lower c)) :: nat) = of_char (ascii_lower c)"
    by (simp add: of_char_ascii_lower)
  then show ?thesis by (simp only: of_char_eq_iff)
qed

lemma ascii_lower_eq_percent: "ascii_lower c = CHR ''%'' \<longleftrightarrow> c = CHR ''%''"
proof -
  have "(of_char (ascii_lower c) :: nat) = of_char (CHR ''%'')
          \<longleftrightarrow> (of_char c :: nat) = of_char (CHR ''%'')"
    by (simp add: of_char_ascii_lower)
  then show ?thesis by (simp only: of_char_eq_iff)
qed

lemma ascii_lower_eq_underscore: "ascii_lower c = CHR ''_'' \<longleftrightarrow> c = CHR ''_''"
proof -
  have "(of_char (ascii_lower c) :: nat) = of_char (CHR ''_'')
          \<longleftrightarrow> (of_char c :: nat) = of_char (CHR ''_'')"
    by (simp add: of_char_ascii_lower)
  then show ?thesis by (simp only: of_char_eq_iff)
qed

lemma ascii_lower_eq_NUL: "ascii_lower c = CHR 0x00 \<longleftrightarrow> c = CHR 0x00"
proof -
  have "(of_char (ascii_lower c) :: nat) = of_char (CHR 0x00)
          \<longleftrightarrow> (of_char c :: nat) = of_char (CHR 0x00)"
    by (simp add: of_char_ascii_lower)
  then show ?thesis by (simp only: of_char_eq_iff)
qed

lemma patternCompare_lower:
  "patternCompare (map ascii_lower p) (map ascii_lower s) = patternCompare p s"
  by (induction p s rule: patternCompare.induct)
     (simp_all add: ascii_lower_idem ascii_lower_eq_percent ascii_lower_eq_underscore)

lemma c_string_lower: "c_string (map ascii_lower s) = map ascii_lower (c_string s)"
  by (induction s) (simp_all add: c_string_def ascii_lower_eq_NUL)

text \<open>
  \<open>LIKE\<close> already ignores the case of A-Z, so \<open>LOWER\<close> on both sides changes nothing:
  \<^verbatim>\<open>LOWER(name) LIKE LOWER(p)\<close> is \<^verbatim>\<open>name LIKE p\<close>.
\<close>

lemma like_lower: "like (map ascii_lower p) (map ascii_lower s) = like p s"
  by (simp add: like_def c_string_lower patternCompare_lower)

lemma eval_LowerLike: "eval_cond (LowerLike pattern) name = like pattern name"
  by (simp only: eval_cond.simps like_lower)

lemma c_string_id: "CHR 0x00 \<notin> set s \<Longrightarrow> c_string s = s"
  by (induction s) (auto simp: c_string_def)

lemma c_string_no_NUL: "CHR 0x00 \<notin> set (c_string s)"
  by (auto simp: c_string_def dest: set_takeWhileD)

subsection \<open>\<open>LIKE\<close> patterns without wildcards in the term\<close>

lemma patternCompare_percent_iff: "patternCompare (CHR ''%'' # ps) s \<longleftrightarrow> (\<exists>a b. s = a @ b \<and> patternCompare ps b)"
proof (induction s)
  case Nil
  then show ?case by simp
next
  case (Cons c cs)
  have "(\<exists>a b. c # cs = a @ b \<and> patternCompare ps b)
          \<longleftrightarrow> patternCompare ps (c # cs) \<or> (\<exists>a b. cs = a @ b \<and> patternCompare ps b)"
    by (auto simp: Cons_eq_append_conv)
  with Cons show ?case by simp
qed

lemma patternCompare_only_percent: "patternCompare ''%'' s"
  by (simp add: patternCompare_percent_iff)

lemma patternCompare_literal:
  "no_wildcard t \<Longrightarrow>
     patternCompare (t @ ps) s \<longleftrightarrow> (\<exists>a b. s = a @ b \<and> map ascii_lower a = map ascii_lower t \<and> patternCompare ps b)"
proof (induction t arbitrary: s)
  case Nil
  then show ?case by simp
next
  case (Cons p t)
  then have p: "p \<noteq> CHR ''%''" "p \<noteq> CHR ''_''" and t: "no_wildcard t"
    by (auto simp: no_wildcard_def)
  show ?case
  proof (cases s)
    case Nil
    then show ?thesis using p by simp
  next
    case (Cons c cs)
    have "patternCompare ((p # t) @ ps) (c # cs) \<longleftrightarrow> ascii_lower p = ascii_lower c \<and> patternCompare (t @ ps) cs"
      using p by simp
    also have "\<dots> \<longleftrightarrow> ascii_lower p = ascii_lower c
                 \<and> (\<exists>a b. cs = a @ b \<and> map ascii_lower a = map ascii_lower t \<and> patternCompare ps b)"
      using Cons.IH[OF t] by simp
    also have "\<dots> \<longleftrightarrow> (\<exists>a b. c # cs = a @ b \<and> map ascii_lower a = map ascii_lower (p # t) \<and> patternCompare ps b)"
    proof
      assume "ascii_lower p = ascii_lower c
                \<and> (\<exists>a b. cs = a @ b \<and> map ascii_lower a = map ascii_lower t \<and> patternCompare ps b)"
      then obtain a b where "ascii_lower p = ascii_lower c" "cs = a @ b"
        "map ascii_lower a = map ascii_lower t" "patternCompare ps b"
        by blast
      then have "c # cs = (c # a) @ b \<and> map ascii_lower (c # a) = map ascii_lower (p # t) \<and> patternCompare ps b"
        by simp
      then show "\<exists>a b. c # cs = a @ b \<and> map ascii_lower a = map ascii_lower (p # t) \<and> patternCompare ps b"
        by blast
    next
      assume "\<exists>a b. c # cs = a @ b \<and> map ascii_lower a = map ascii_lower (p # t) \<and> patternCompare ps b"
      then obtain a b where ab: "c # cs = a @ b" "map ascii_lower a = map ascii_lower (p # t)"
        "patternCompare ps b"
        by blast
      from ab(2) obtain x a' where a: "a = x # a'" by (cases a) auto
      with ab have "x = c" "cs = a' @ b" "ascii_lower x = ascii_lower p"
        "map ascii_lower a' = map ascii_lower t"
        by auto
      with ab(3) show "ascii_lower p = ascii_lower c
                \<and> (\<exists>a b. cs = a @ b \<and> map ascii_lower a = map ascii_lower t \<and> patternCompare ps b)"
        by auto
    qed
    finally show ?thesis using Cons by simp
  qed
qed

lemma prefix_map_iff: "prefix xs (map f ys) \<longleftrightarrow> (\<exists>a b. ys = a @ b \<and> map f a = xs)"
proof
  assume "prefix xs (map f ys)"
  then obtain zs where "map f ys = xs @ zs" by (auto simp: prefix_def)
  then have "\<exists>us vs. ys = us @ vs \<and> xs = map f us \<and> zs = map f vs"
    by (simp only: map_eq_append_conv)
  then show "\<exists>a b. ys = a @ b \<and> map f a = xs"
    by blast
next
  assume "\<exists>a b. ys = a @ b \<and> map f a = xs"
  then obtain a b where "ys = a @ b" "map f a = xs" by blast
  then have "map f ys = xs @ map f b" by simp
  then show "prefix xs (map f ys)" by (simp only: prefixI)
qed

lemma sublist_map_iff:
  "sublist xs (map f ys) \<longleftrightarrow> (\<exists>a m c. ys = a @ m @ c \<and> map f m = xs)"
proof
  assume "sublist xs (map f ys)"
  then obtain ps ss where "map f ys = ps @ (xs @ ss)" by (auto simp: sublist_def)
  then have "\<exists>us vs. ys = us @ vs \<and> ps = map f us \<and> xs @ ss = map f vs"
    by (simp only: map_eq_append_conv)
  then obtain us vs where u: "ys = us @ vs" "map f vs = xs @ ss" by metis
  from u(2) have "\<exists>m c. vs = m @ c \<and> xs = map f m \<and> ss = map f c"
    by (simp only: map_eq_append_conv)
  with u(1) show "\<exists>a m c. ys = a @ m @ c \<and> map f m = xs"
    by blast
next
  assume "\<exists>a m c. ys = a @ m @ c \<and> map f m = xs"
  then obtain a m c where "ys = a @ m @ c" "map f m = xs" by blast
  then have "map f ys = map f a @ xs @ map f c" by simp
  then show "sublist xs (map f ys)" unfolding sublist_def by blast
qed

lemma patternCompare_prefix_pattern:
  "no_wildcard term \<Longrightarrow> patternCompare (term @ ''%'') name \<longleftrightarrow> starts_with_nocase term name"
  by (auto simp: patternCompare_literal patternCompare_only_percent starts_with_nocase_def prefix_map_iff)

lemma patternCompare_substring_pattern:
  assumes "no_wildcard term"
  shows "patternCompare (''%'' @ term @ ''%'') name \<longleftrightarrow> contains_nocase term name"
proof -
  have "patternCompare (''%'' @ term @ ''%'') name
          \<longleftrightarrow> (\<exists>a b. name = a @ b \<and> patternCompare (term @ ''%'') b)"
    by (simp add: patternCompare_percent_iff)
  also have "\<dots> \<longleftrightarrow> (\<exists>a m c. name = a @ m @ c \<and> map ascii_lower m = map ascii_lower term)"
    by (auto simp: patternCompare_literal[OF assms] patternCompare_only_percent)
  also have "\<dots> \<longleftrightarrow> contains_nocase term name"
    by (simp add: contains_nocase_def sublist_map_iff)
  finally show ?thesis .
qed

lemma patternCompare_term_pattern:
  assumes "no_wildcard term"
  shows "patternCompare (term_pattern term) name \<longleftrightarrow> spec_term_matches term name"
proof (cases "3 \<le> length term")
  case True
  then show ?thesis
    using patternCompare_prefix_pattern[OF assms] by (simp add: term_pattern_def spec_term_matches_def)
next
  case False
  then show ?thesis
    using patternCompare_substring_pattern[OF assms] by (simp add: term_pattern_def spec_term_matches_def)
qed

text \<open>For a literal term the pattern is a C string as it stands.\<close>

lemma like_term_pattern:
  assumes "literal_term term"
  shows "like (term_pattern term) name \<longleftrightarrow> spec_term_matches term (c_string name)"
proof -
  have "CHR 0x00 \<notin> set (term_pattern term)"
    using assms by (simp add: literal_term_def term_pattern_def)
  then have "c_string (term_pattern term) = term_pattern term"
    by (rule c_string_id)
  moreover have "no_wildcard term"
    using assms by (simp add: literal_term_def)
  ultimately show ?thesis
    using patternCompare_term_pattern[of "term" "c_string name"] by (simp add: like_def)
qed

lemma like_substring_pattern:
  assumes "literal_term term"
  shows "like (''%'' @ term @ ''%'') name \<longleftrightarrow> contains_nocase term (c_string name)"
proof -
  have "CHR 0x00 \<notin> set (''%'' @ term @ ''%'')"
    using assms by (simp add: literal_term_def)
  then have "c_string (''%'' @ term @ ''%'') = ''%'' @ term @ ''%''"
    by (rule c_string_id)
  moreover have "no_wildcard term"
    using assms by (simp add: literal_term_def)
  ultimately show ?thesis
    using patternCompare_substring_pattern[of "term" "c_string name"] by (simp only: like_def)
qed

subsection \<open>The condition built by the first version\<close>

lemma eval_fold_And:
  "eval_cond (fold (\<lambda>term condition. And condition (NocaseLike (pat term))) rest c0) name
     \<longleftrightarrow> eval_cond c0 name \<and> (\<forall>term \<in> set rest. like (pat term) name)"
  by (induction rest arbitrary: c0) auto

lemma eval_whereCondition:
  "eval_cond (whereCondition firstTerm rest) name
     \<longleftrightarrow> (\<forall>term \<in> set (firstTerm # rest). like (term_pattern term) name)"
proof -
  have f: "(\<lambda>term condition. And condition
              (NocaseLike (if 3 \<le> length term then term @ ''%'' else ''%'' @ term @ ''%'')))
           = (\<lambda>term condition. And condition (NocaseLike (term_pattern term)))"
    by (simp add: term_pattern_def fun_eq_iff)
  show ?thesis
    unfolding whereCondition_def Let_def f
    by (simp add: eval_fold_And) (simp add: term_pattern_def)
qed

subsection \<open>The terms of the code and those of the specification\<close>

lemma split_where_space:
  "\<forall>c \<in> set s. is_js_whitespace c \<longleftrightarrow> c = CHR '' '' \<Longrightarrow>
     split_where is_js_whitespace s = split_on (CHR '' '') s"
  by (induction s) (auto split: list.splits)

lemma split_on_pieces: "w \<in> set (split_on sep s) \<Longrightarrow> set w \<subseteq> set s - {sep}"
proof (induction s arbitrary: w)
  case Nil
  then show ?case by simp
next
  case (Cons c cs)
  show ?case
  proof (cases "c = sep")
    case True
    with Cons show ?thesis by auto
  next
    case False
    then show ?thesis
    proof (cases "split_on sep cs")
      case Nil
      with Cons.prems False show ?thesis by auto
    next
      case (Cons v vs)
      with Cons.prems False have "w = c # v \<or> w \<in> set vs" by auto
      moreover have "set v \<subseteq> set cs - {sep}" "\<And>x. x \<in> set vs \<Longrightarrow> set x \<subseteq> set cs - {sep}"
        using Cons.IH Cons by auto
      ultimately show ?thesis using False by auto
    qed
  qed
qed

lemma trim_no_space: "\<forall>c \<in> set w. \<not> is_js_whitespace c \<Longrightarrow> trim w = w"
proof (cases w rule: rev_cases)
  case Nil
  then show ?thesis by (simp add: trim_def)
next
  case (snoc ys y)
  assume a: "\<forall>c \<in> set w. \<not> is_js_whitespace c"
  then have "dropWhile is_js_whitespace w = w"
    by (cases w) auto
  moreover have "dropWhile is_js_whitespace (rev w) = rev w"
    using a snoc by simp
  ultimately show ?thesis by (simp add: trim_def)
qed

lemma set_trim: "set (trim s) \<subseteq> set s"
proof -
  have "set (dropWhile P xs) \<subseteq> set xs" for P and xs :: string
    by (auto dest: set_dropWhileD)
  then have "set (dropWhile is_js_whitespace (rev (dropWhile is_js_whitespace s)))
               \<subseteq> set (rev (dropWhile is_js_whitespace s))"
    and "set (dropWhile is_js_whitespace s) \<subseteq> set s"
    by blast+
  then show ?thesis by (auto simp: trim_def)
qed

lemma searchTerms_of_spec_terms:
  assumes "\<forall>c \<in> set searchTerm. is_js_whitespace c \<longrightarrow> c = CHR '' ''"
  shows "searchTerms_of searchTerm = spec_terms searchTerm"
proof -
  have sp: "is_js_whitespace (CHR '' '')"
    by (simp add: is_js_whitespace_def)
  have t: "\<forall>c \<in> set (trim searchTerm). is_js_whitespace c \<longleftrightarrow> c = CHR '' ''"
    using assms set_trim sp by blast
  have piece: "trim w = w" if "w \<in> set (split_on (CHR '' '') (trim searchTerm))" for w
  proof -
    from split_on_pieces[OF that] have "\<forall>c \<in> set w. c \<in> set (trim searchTerm) \<and> c \<noteq> CHR '' ''"
      by auto
    with t have "\<forall>c \<in> set w. \<not> is_js_whitespace c" by blast
    then show ?thesis by (rule trim_no_space)
  qed
  have "filter (\<lambda>term. trim term \<noteq> []) (split_on (CHR '' '') (trim searchTerm))
          = filter (\<lambda>term. term \<noteq> []) (split_on (CHR '' '') (trim searchTerm))"
    by (rule filter_cong) (simp_all add: piece)
  moreover have "map trim (filter (\<lambda>term. term \<noteq> []) (split_on (CHR '' '') (trim searchTerm)))
          = filter (\<lambda>term. term \<noteq> []) (split_on (CHR '' '') (trim searchTerm))"
    by (rule map_idI) (simp add: piece)
  ultimately show ?thesis
    by (simp add: searchTerms_of_def spec_terms_def split_where_space[OF t])
qed

lemma whereCondition_spec_matches:
  assumes sp: "\<forall>c \<in> set searchTerm. is_js_whitespace c \<longrightarrow> c = CHR '' ''"
    and nw: "\<forall>term \<in> set (firstTerm # rest). literal_term term"
    and st: "searchTerms_of searchTerm = firstTerm # rest"
  shows "eval_cond (whereCondition firstTerm rest) name
           \<longleftrightarrow> spec_matches searchTerm (c_string name)"
proof -
  have "spec_terms searchTerm = firstTerm # rest"
    using searchTerms_of_spec_terms[OF sp] st by simp
  then have "spec_matches searchTerm (c_string name)
               \<longleftrightarrow> (\<forall>term \<in> set (firstTerm # rest). spec_term_matches term (c_string name))"
    by (simp add: spec_matches_def list_all_iff)
  also have "\<dots> \<longleftrightarrow> (\<forall>term \<in> set (firstTerm # rest). like (term_pattern term) name)"
    using nw like_term_pattern by blast
  finally show ?thesis
    using eval_whereCondition[of firstTerm rest name] by simp
qed

subsection \<open>The condition built by the second version\<close>

lemma trim_Nil: "trim [] = []"
  by (simp add: trim_def)

lemma dropWhile_hd_id: "xs \<noteq> [] \<Longrightarrow> \<not> P (hd xs) \<Longrightarrow> dropWhile P xs = xs"
  by (cases xs) simp_all

lemma trim_ends:
  assumes "trim s \<noteq> []"
  shows "\<not> is_js_whitespace (hd (trim s))" and "\<not> is_js_whitespace (last (trim s))"
proof -
  let ?u = "dropWhile is_js_whitespace s"
  let ?v = "dropWhile is_js_whitespace (rev ?u)"
  have t: "trim s = rev ?v"
    by (simp add: trim_def)
  with assms have v: "?v \<noteq> []"
    by simp
  then have hv: "\<not> is_js_whitespace (hd ?v)"
    by (rule hd_dropWhile)
  have "last (rev ?v) = hd ?v"
    by (simp add: last_rev)
  with hv t show "\<not> is_js_whitespace (last (trim s))"
    by simp
  have "rev ?u = takeWhile is_js_whitespace (rev ?u) @ ?v"
    by simp
  then have "last (rev ?u) = last (takeWhile is_js_whitespace (rev ?u) @ ?v)"
    by simp
  also have "\<dots> = last ?v"
    using v by (rule last_appendR)
  finally have l: "last ?v = hd ?u"
    by (simp add: last_rev)
  have "?u \<noteq> []"
    using v by (auto dest: set_dropWhileD)
  then have "\<not> is_js_whitespace (hd ?u)"
    by (rule hd_dropWhile)
  moreover have "hd (rev ?v) = last ?v"
    using v by (simp add: hd_rev)
  ultimately show "\<not> is_js_whitespace (hd (trim s))"
    using t l by simp
qed

lemma trim_id:
  assumes "s \<noteq> []" and "\<not> is_js_whitespace (hd s)" and "\<not> is_js_whitespace (last s)"
  shows "trim s = s"
proof -
  have "dropWhile is_js_whitespace s = s"
    using assms(1,2) by (rule dropWhile_hd_id)
  moreover have "dropWhile is_js_whitespace (rev s) = rev s"
    using assms(1,3) by (intro dropWhile_hd_id) (simp_all add: hd_rev)
  ultimately show ?thesis
    by (simp add: trim_def)
qed

lemma trim_idem: "trim (trim s) = trim s"
proof (cases "trim s = []")
  case True
  then show ?thesis by (simp add: trim_Nil)
next
  case False
  then show ?thesis by (intro trim_id trim_ends)
qed

lemma trim_nonblank:
  assumes "c \<in> set s" and "\<not> is_js_whitespace c"
  shows "trim s \<noteq> []"
proof -
  let ?u = "dropWhile is_js_whitespace s"
  have u: "?u \<noteq> []"
    using assms by (auto simp: dropWhile_eq_Nil_conv)
  then have "\<not> is_js_whitespace (hd ?u)"
    by (rule hd_dropWhile)
  moreover have "hd ?u \<in> set (rev ?u)"
    using u by simp
  ultimately have "dropWhile is_js_whitespace (rev ?u) \<noteq> []"
    by (auto simp: dropWhile_eq_Nil_conv)
  then show ?thesis
    by (simp add: trim_def)
qed

lemma split_on_not_Nil: "split_on sep s \<noteq> []"
  by (induction s) (auto split: list.splits)

lemma split_on_no_sep: "sep \<notin> set s \<Longrightarrow> split_on sep s = [s]"
  by (induction s) auto

lemma split_on_append: "split_on sep (a @ sep # b) = split_on sep a @ split_on sep b"
proof (induction a)
  case Nil
  then show ?case by simp
next
  case (Cons c a)
  obtain w ws where "split_on sep a = w # ws"
    using split_on_not_Nil[of sep a] by (cases "split_on sep a") auto
  with Cons show ?case by simp
qed

lemma split_on_hd: "c \<noteq> sep \<Longrightarrow> \<exists>w ws. split_on sep (c # cs) = (c # w) # ws"
  using split_on_not_Nil[of sep cs] by (cases "split_on sep cs") auto

text \<open>
  When the search string has exactly one term, that term is the trimmed string: a
  trimmed string that contains a space has a term before its last space and one after.
\<close>

lemma searchTerms_of_single:
  assumes "searchTerms_of searchTerm = [t]"
  shows "trim searchTerm = t"
proof (cases "CHR '' '' \<in> set (trim searchTerm)")
  case False
  then have "split_on (CHR '' '') (trim searchTerm) = [trim searchTerm]"
    by (rule split_on_no_sep)
  with assms have "trim (trim searchTerm) = t"
    by (simp add: searchTerms_of_def split: if_splits)
  then show ?thesis
    by (simp add: trim_idem)
next
  case True
  let ?nonblank = "\<lambda>term. trim term \<noteq> []"
  have sp: "is_js_whitespace (CHR '' '')"
    by (simp add: is_js_whitespace_def)
  from True have ne: "trim searchTerm \<noteq> []"
    by auto
  from True obtain a b where ab: "trim searchTerm = a @ CHR '' '' # b" and b: "CHR '' '' \<notin> set b"
    by (auto dest: split_list_last)
  have ends: "\<not> is_js_whitespace (hd (a @ CHR '' '' # b))"
    "\<not> is_js_whitespace (last (a @ CHR '' '' # b))"
    using trim_ends[OF ne, unfolded ab] by blast+
  from ends(1) sp obtain c cs where a: "a = c # cs" and c: "\<not> is_js_whitespace c"
    by (cases a) auto
  from c sp have "c \<noteq> CHR '' ''"
    by auto
  then obtain w ws where w: "split_on (CHR '' '') a = (c # w) # ws"
    unfolding a using split_on_hd by blast
  have "?nonblank (c # w)"
    by (rule trim_nonblank[of c]) (simp_all add: c)
  with w obtain x xs where fa: "filter ?nonblank (split_on (CHR '' '') a) = x # xs"
    by simp
  from ends(2) sp have bne: "b \<noteq> []" and "\<not> is_js_whitespace (last b)"
    by (cases "b = []", simp_all)+
  then have "?nonblank b"
    by (intro trim_nonblank[of "last b"]) simp_all
  moreover have "split_on (CHR '' '') b = [b]"
    using b by (rule split_on_no_sep)
  ultimately have fb: "filter ?nonblank (split_on (CHR '' '') b) = [b]"
    by simp
  have "searchTerms_of searchTerm = map trim (x # xs) @ [trim b]"
    unfolding searchTerms_of_def ab split_on_append filter_append fa fb by simp
  with assms show ?thesis
    by simp
qed

lemma eval_fold_And_lower:
  "eval_cond (fold (\<lambda>term condition. And condition (LowerLike (pat term))) rest c0) name
     \<longleftrightarrow> eval_cond c0 name \<and> (\<forall>term \<in> set rest. like (pat term) name)"
  by (induction rest arbitrary: c0) (auto simp: eval_LowerLike simp del: eval_cond.simps(2))

lemma eval_whereCondition_lower:
  assumes "searchTerms_of searchTerm = firstTerm # rest"
  shows "eval_cond (whereCondition_lower (trim searchTerm) (firstTerm # rest)) name
           \<longleftrightarrow> (\<forall>term \<in> set (firstTerm # rest). like (''%'' @ term @ ''%'') name)"
proof (cases rest)
  case Nil
  with assms have "trim searchTerm = firstTerm"
    by (simp add: searchTerms_of_single)
  with Nil show ?thesis
    by (simp add: whereCondition_lower_def eval_LowerLike del: eval_cond.simps(2))
next
  case (Cons r rs)
  then have "whereCondition_lower (trim searchTerm) (firstTerm # rest)
               = fold (\<lambda>term condition. And condition (LowerLike (''%'' @ term @ ''%'')))
                   rest (LowerLike (''%'' @ firstTerm @ ''%''))"
    by (simp add: whereCondition_lower_def)
  then show ?thesis
    by (simp only: eval_fold_And_lower eval_LowerLike list.set ball_simps)
qed

subsection \<open>The conditions that the store accepts\<close>

lemma utf8_length_lower: "utf8_length (map ascii_lower s) = utf8_length s"
proof -
  have "(128 \<le> (of_char (ascii_lower c) :: nat)) = (128 \<le> (of_char c :: nat))" for c
    by (simp add: of_char_ascii_lower)
  then show ?thesis
    by (simp add: utf8_length_def filter_map comp_def)
qed

lemma patterns_fold_And:
  "patterns_within_limit (fold (\<lambda>term condition. And condition (leaf term)) rest c0)
     \<longleftrightarrow> patterns_within_limit c0 \<and> (\<forall>term \<in> set rest. patterns_within_limit (leaf term))"
  by (induction rest arbitrary: c0) auto

lemma depth_fold_And:
  assumes "\<And>term. expr_depth (leaf term) = 3" and "3 \<le> expr_depth c0"
  shows "expr_depth (fold (\<lambda>term condition. And condition (leaf term)) rest c0)
           = expr_depth c0 + length rest"
  using assms(2) by (induction rest arbitrary: c0) (simp_all add: assms(1) max_def)

text \<open>
  The store accepts the condition of either version when no pattern is longer than
  50000 bytes and there are at most 994 terms.
\<close>

lemma accepted_whereCondition:
  "accepted (whereCondition firstTerm rest)
     \<longleftrightarrow> (\<forall>term \<in> set (firstTerm # rest). utf8_length (term_pattern term) \<le> 50000)
         \<and> length (firstTerm # rest) \<le> 994"
proof -
  have f: "(\<lambda>term condition. And condition
              (NocaseLike (if 3 \<le> length term then term @ ''%'' else ''%'' @ term @ ''%'')))
           = (\<lambda>term condition. And condition (NocaseLike (term_pattern term)))"
    by (simp add: term_pattern_def fun_eq_iff)
  have w: "whereCondition firstTerm rest
             = fold (\<lambda>term condition. And condition (NocaseLike (term_pattern term)))
                 rest (NocaseLike (term_pattern firstTerm))"
    unfolding whereCondition_def Let_def f by (simp add: term_pattern_def)
  have "expr_depth (whereCondition firstTerm rest) = 3 + length rest"
    unfolding w by (subst depth_fold_And) simp_all
  moreover have "patterns_within_limit (whereCondition firstTerm rest)
          \<longleftrightarrow> (\<forall>term \<in> set (firstTerm # rest). utf8_length (term_pattern term) \<le> 50000)"
    unfolding w by (simp add: patterns_fold_And like_pattern_limit_def)
  ultimately show ?thesis
    by (auto simp: accepted_def expr_depth_limit_def)
qed

lemma accepted_whereCondition_lower:
  assumes "searchTerms_of searchTerm = firstTerm # rest"
  shows "accepted (whereCondition_lower (trim searchTerm) (firstTerm # rest))
     \<longleftrightarrow> (\<forall>term \<in> set (firstTerm # rest). utf8_length (''%'' @ term @ ''%'') \<le> 50000)
         \<and> length (firstTerm # rest) \<le> 994"
proof -
  have w: "whereCondition_lower (trim searchTerm) (firstTerm # rest)
             = fold (\<lambda>term condition. And condition (LowerLike (''%'' @ term @ ''%'')))
                 rest (LowerLike (''%'' @ firstTerm @ ''%''))"
  proof (cases rest)
    case Nil
    with assms have "trim searchTerm = firstTerm"
      by (simp add: searchTerms_of_single)
    with Nil show ?thesis
      by (simp add: whereCondition_lower_def)
  next
    case (Cons r rs)
    then show ?thesis
      by (simp add: whereCondition_lower_def)
  qed
  have "expr_depth (whereCondition_lower (trim searchTerm) (firstTerm # rest)) = 3 + length rest"
    unfolding w by (subst depth_fold_And) simp_all
  moreover have "patterns_within_limit (whereCondition_lower (trim searchTerm) (firstTerm # rest))
          \<longleftrightarrow> (\<forall>term \<in> set (firstTerm # rest). utf8_length (''%'' @ term @ ''%'') \<le> 50000)"
    unfolding w patterns_fold_And
    by (simp only: patterns_within_limit.simps utf8_length_lower like_pattern_limit_def
          list.set ball_simps)
  ultimately show ?thesis
    by (auto simp: accepted_def expr_depth_limit_def)
qed

subsection \<open>The rows of the query\<close>

text \<open>
  Whatever order the store produces them in, the rows of a result are rows that
  satisfy the statement, each at most as often as the statement yields it, and there
  are 5 of them or all of them.
\<close>

lemma search_query_rows:
  assumes "is_row_order row_order"
  shows "mset (search_query row_order db cond) \<subseteq># mset (matching_rows db cond)"
    and "length (search_query row_order db cond) = min 5 (length (matching_rows db cond))"
proof -
  let ?rows = "row_order cond (matching_rows db cond)"
  have m: "mset ?rows = mset (matching_rows db cond)"
    using assms by (simp add: is_row_order_def)
  have "mset (take 5 ?rows) \<subseteq># mset (take 5 ?rows) + mset (drop 5 ?rows)"
    by simp
  also have "\<dots> = mset ?rows"
    by (simp only: union_code append_take_drop_id)
  finally show "mset (search_query row_order db cond) \<subseteq># mset (matching_rows db cond)"
    by (simp only: search_query_def m)
  have "length ?rows = length (matching_rows db cond)"
    using m by (rule mset_eq_length)
  then show "length (search_query row_order db cond) = min 5 (length (matching_rows db cond))"
    by (simp add: search_query_def min.commute)
qed

lemma matching_rows_satisfy:
  "r \<in> set (matching_rows db cond) \<Longrightarrow> eval_cond cond (products_name (row_products r))"
  by (auto simp: matching_rows_def)

lemma is_row_order_insertion_order: "is_row_order insertion_order"
  by (simp add: is_row_order_def insertion_order_def)

subsection \<open>The predicate of the search\<close>

text \<open>
  C2 (as amended). The terms are cut as the code cuts them: the trimmed string is
  split at every space, blank pieces are dropped and the others trimmed. Let at least
  one term remain, and let the store accept the condition (lemmas
  \<open>accepted_whereCondition\<close> and \<open>accepted_whereCondition_lower\<close>: no pattern longer
  than 50000 bytes, at most 994 terms). The version of lines 171-237 sends one query whose condition holds of a
  product name exactly when, for every term, the name matches the term's pattern under
  \<open>LIKE\<close>: \<open>term%\<close> for a term of 3 characters or more, \<open>%term%\<close> for a shorter one. For
  a literal term (without \<open>%\<close>, \<open>_\<close> and U+0000) that is: the name, up to its first
  U+0000, starts with the term, respectively contains it, without regard to the case
  of A-Z. When moreover the only white space in the search string is the space
  character and every term is literal, the condition is the predicate as the
  specification words it. The version of lines 408-456 sends one query whose condition
  holds of a name exactly when the name matches \<open>%term%\<close> for every term: for a literal
  term, when the name up to its first U+0000 contains it, whatever its length.
\<close>

theorem search_predicate_is_conjunction:
  assumes "searchTerms_of searchTerm = firstTerm # rest"
  shows "(accepted (whereCondition firstTerm rest) \<longrightarrow>
            getSearchResults row_order db searchTerm
              = (search_query row_order db (whereCondition firstTerm rest),
                 [whereCondition firstTerm rest])
          \<and> (eval_cond (whereCondition firstTerm rest) name
                \<longleftrightarrow> (\<forall>term \<in> set (firstTerm # rest). like (term_pattern term) name))
          \<and> (\<forall>term \<in> set (firstTerm # rest). literal_term term
                \<longrightarrow> (like (term_pattern term) name
                       \<longleftrightarrow> spec_term_matches term (c_string name)))
          \<and> ((\<forall>c \<in> set searchTerm. is_js_whitespace c \<longrightarrow> c = CHR '' '')
                \<and> (\<forall>term \<in> set (firstTerm # rest). literal_term term)
              \<longrightarrow> (eval_cond (whereCondition firstTerm rest) name
                     \<longleftrightarrow> spec_matches searchTerm (c_string name))))
       \<and> (accepted (whereCondition_lower (trim searchTerm) (firstTerm # rest)) \<longrightarrow>
            getSearchResults_lower row_order db searchTerm
              = (search_query row_order db
                   (whereCondition_lower (trim searchTerm) (firstTerm # rest)),
                 [whereCondition_lower (trim searchTerm) (firstTerm # rest)])
          \<and> (eval_cond (whereCondition_lower (trim searchTerm) (firstTerm # rest)) name
                \<longleftrightarrow> (\<forall>term \<in> set (firstTerm # rest). like (''%'' @ term @ ''%'') name))
          \<and> (\<forall>term \<in> set (firstTerm # rest). literal_term term
                \<longrightarrow> (like (''%'' @ term @ ''%'') name
                       \<longleftrightarrow> contains_nocase term (c_string name))))"
proof -
  have "getSearchResults row_order db searchTerm
          = (search_query row_order db (whereCondition firstTerm rest),
             [whereCondition firstTerm rest])"
    using assms by (simp add: getSearchResults_def)
  moreover have "eval_cond (whereCondition firstTerm rest) name
          \<longleftrightarrow> (\<forall>term \<in> set (firstTerm # rest). like (term_pattern term) name)"
    by (rule eval_whereCondition)
  moreover have "\<forall>term \<in> set (firstTerm # rest). literal_term term
          \<longrightarrow> (like (term_pattern term) name \<longleftrightarrow> spec_term_matches term (c_string name))"
    using like_term_pattern by blast
  moreover have "(\<forall>c \<in> set searchTerm. is_js_whitespace c \<longrightarrow> c = CHR '' '')
            \<and> (\<forall>term \<in> set (firstTerm # rest). literal_term term)
          \<longrightarrow> (eval_cond (whereCondition firstTerm rest) name
                 \<longleftrightarrow> spec_matches searchTerm (c_string name))"
    using whereCondition_spec_matches[OF _ _ assms] by blast
  moreover have "getSearchResults_lower row_order db searchTerm
          = (search_query row_order db
               (whereCondition_lower (trim searchTerm) (firstTerm # rest)),
             [whereCondition_lower (trim searchTerm) (firstTerm # rest)])"
    using assms by (simp add: getSearchResults_lower_def Let_def)
  moreover have "eval_cond (whereCondition_lower (trim searchTerm) (firstTerm # rest)) name
          \<longleftrightarrow> (\<forall>term \<in> set (firstTerm # rest). like (''%'' @ term @ ''%'') name)"
    using assms by (rule eval_whereCondition_lower)
  moreover have "\<forall>term \<in> set (firstTerm # rest). literal_term term
          \<longrightarrow> (like (''%'' @ term @ ''%'') name \<longleftrightarrow> contains_nocase term (c_string name))"
    using like_substring_pattern by blast
  ultimately show ?thesis
    by blast
qed

lemma searchTerms_of_cab: "searchTerms_of ''cab'' = [''cab'']"
  by code_simp

lemma searchTerms_of_ab: "searchTerms_of ''ab'' = [''ab'']"
  by code_simp

lemma searchTerms_of_red_la: "searchTerms_of '' red  la'' = [''red'', ''la'']"
  by code_simp

theorem search_predicate_is_conjunction_witness:
  "snd (getSearchResults insertion_order empty_store ''ab'') = [NocaseLike ''%ab%'']
   \<and> eval_cond (NocaseLike ''%ab%'') ''Cabinet''
   \<and> snd (getSearchResults insertion_order empty_store ''cab'') = [NocaseLike ''cab%'']
   \<and> eval_cond (NocaseLike ''cab%'') ''Cabinet''
   \<and> \<not> eval_cond (NocaseLike ''cab%'') ''Scabbard''
   \<and> snd (getSearchResults insertion_order empty_store '' red  la'')
       = [And (NocaseLike ''red%'') (NocaseLike ''%la%'')]
   \<and> eval_cond (And (NocaseLike ''red%'') (NocaseLike ''%la%'')) ''Red Flag''
   \<and> spec_matches '' red  la'' ''Red Flag''
   \<and> snd (getSearchResults_lower insertion_order empty_store ''cab'') = [LowerLike ''%cab%'']
   \<and> eval_cond (LowerLike ''%cab%'') ''Scabbard''
   \<and> snd (getSearchResults_lower insertion_order empty_store '' red  la'')
       = [And (LowerLike ''%red%'') (LowerLike ''%la%'')]
   \<and> \<not> eval_cond (And (LowerLike ''%red%'') (LowerLike ''%la%'')) ''Red Mug''"
proof -
  have w: "whereCondition ''ab'' [] = NocaseLike ''%ab%''"
    "whereCondition ''cab'' [] = NocaseLike ''cab%''"
    "whereCondition ''red'' [''la''] = And (NocaseLike ''red%'') (NocaseLike ''%la%'')"
    by (simp_all add: whereCondition_def)
  have t: "trim ''cab'' = ''cab''" "trim '' red  la'' = ''red  la''"
    by code_simp+
  have wl: "whereCondition_lower ''cab'' [''cab''] = LowerLike ''%cab%''"
    "whereCondition_lower ''red  la'' [''red'', ''la'']
       = And (LowerLike ''%red%'') (LowerLike ''%la%'')"
    by (simp_all add: whereCondition_lower_def)
  have acc: "accepted (NocaseLike ''%ab%'')" "accepted (NocaseLike ''cab%'')"
    "accepted (And (NocaseLike ''red%'') (NocaseLike ''%la%''))"
    "accepted (LowerLike ''%cab%'')" "accepted (And (LowerLike ''%red%'') (LowerLike ''%la%''))"
    by (simp_all add: accepted_def utf8_length_def like_pattern_limit_def expr_depth_limit_def
          ascii_lower_def)
  have lit: "literal_term ''ab''" "literal_term ''cab''" "literal_term ''red''"
    "literal_term ''la''"
    by (simp_all add: literal_term_def no_wildcard_def)
  have cs: "c_string ''Cabinet'' = ''Cabinet''" "c_string ''Scabbard'' = ''Scabbard''"
    "c_string ''Red Flag'' = ''Red Flag''" "c_string ''Red Mug'' = ''Red Mug''"
    by (simp_all add: c_string_def)
  have ws: "\<forall>c \<in> set '' red  la''. is_js_whitespace c \<longrightarrow> c = CHR '' ''"
    by (simp add: is_js_whitespace_def)
  have sp: "spec_term_matches ''ab'' ''Cabinet''" "spec_term_matches ''cab'' ''Cabinet''"
    "\<not> spec_term_matches ''cab'' ''Scabbard''"
    "spec_term_matches ''red'' ''Red Flag''" "spec_term_matches ''la'' ''Red Flag''"
    "contains_nocase ''cab'' ''Scabbard''" "\<not> contains_nocase ''la'' ''Red Mug''"
    by code_simp+
  from search_predicate_is_conjunction[OF searchTerms_of_ab, of insertion_order empty_store
         "''Cabinet''"]
  have 1: "snd (getSearchResults insertion_order empty_store ''ab'') = [NocaseLike ''%ab%'']"
    "eval_cond (NocaseLike ''%ab%'') ''Cabinet''"
    unfolding w using acc lit sp by (simp_all add: cs)
  from search_predicate_is_conjunction[OF searchTerms_of_cab, of insertion_order empty_store
         "''Cabinet''"]
  have 2: "snd (getSearchResults insertion_order empty_store ''cab'') = [NocaseLike ''cab%'']"
    "eval_cond (NocaseLike ''cab%'') ''Cabinet''"
    unfolding w using acc lit sp by (simp_all add: cs)
  from search_predicate_is_conjunction[OF searchTerms_of_cab, of insertion_order empty_store
         "''Scabbard''"]
  have 3: "\<not> eval_cond (NocaseLike ''cab%'') ''Scabbard''"
    "snd (getSearchResults_lower insertion_order empty_store ''cab'') = [LowerLike ''%cab%'']"
    "eval_cond (LowerLike ''%cab%'') ''Scabbard''"
    unfolding w t wl using acc lit sp by (simp_all add: cs)
  from search_predicate_is_conjunction[OF searchTerms_of_red_la, of insertion_order empty_store
         "''Red Flag''"]
  have 4: "snd (getSearchResults insertion_order empty_store '' red  la'')
             = [And (NocaseLike ''red%'') (NocaseLike ''%la%'')]"
    "eval_cond (And (NocaseLike ''red%'') (NocaseLike ''%la%'')) ''Red Flag''"
    unfolding w using acc lit sp by (simp_all add: cs)
  from search_predicate_is_conjunction[OF searchTerms_of_red_la, of insertion_order empty_store
         "''Red Flag''"] acc(3)
  have "(\<forall>c \<in> set '' red  la''. is_js_whitespace c \<longrightarrow> c = CHR '' '')
          \<and> (\<forall>term \<in> set [''red'', ''la'']. literal_term term)
        \<longrightarrow> (eval_cond (And (NocaseLike ''red%'') (NocaseLike ''%la%'')) ''Red Flag''
               \<longleftrightarrow> spec_matches '' red  la'' (c_string ''Red Flag''))"
    unfolding w by blast
  moreover have "\<forall>term \<in> set [''red'', ''la'']. literal_term term"
    using lit by simp
  ultimately have "spec_matches '' red  la'' (c_string ''Red Flag'')"
    using ws 4(2) by blast
  then have 6: "spec_matches '' red  la'' ''Red Flag''"
    by (simp only: cs)
  from search_predicate_is_conjunction[OF searchTerms_of_red_la, of insertion_order empty_store
         "''Red Mug''"]
  have 5: "snd (getSearchResults_lower insertion_order empty_store '' red  la'')
             = [And (LowerLike ''%red%'') (LowerLike ''%la%'')]"
    "\<not> eval_cond (And (LowerLike ''%red%'') (LowerLike ''%la%'')) ''Red Mug''"
    unfolding w t wl using acc lit sp by (simp_all add: cs)
  from 1 2 3 4 5 6 show ?thesis
    by blast
qed

text \<open>
  The claim as written fails in several ways. The version of lines 408-456 uses
  \<open>%term%\<close> for every term, so there the term \<open>cab\<close> does match the name \<open>Scabbard\<close>. The
  terms are cut at spaces only: \<open>ab TAB cd\<close> is one term of 5 characters for the code,
  which asks for names that start with it, where splitting on white space gives the two
  short terms \<open>ab\<close> and \<open>cd\<close>, both of which occur in the name \<open>cd ab\<close>. And a term is
  put into the pattern as it is: the term \<open>c_b\<close> matches the name \<open>Cabinet\<close>, which does
  not start with it, and the term \<open>abc\<close> followed by U+0000 matches the name \<open>abc\<close>.
\<close>

theorem search_counterexample:
  "snd (getSearchResults_lower insertion_order empty_store ''cab'') = [LowerLike ''%cab%'']
   \<and> eval_cond (LowerLike ''%cab%'') ''Scabbard''
   \<and> snd (getSearchResults insertion_order empty_store
            [CHR ''a'', CHR ''b'', CHR 0x09, CHR ''c'', CHR ''d''])
       = [NocaseLike [CHR ''a'', CHR ''b'', CHR 0x09, CHR ''c'', CHR ''d'', CHR ''%'']]
   \<and> \<not> eval_cond (NocaseLike [CHR ''a'', CHR ''b'', CHR 0x09, CHR ''c'', CHR ''d'', CHR ''%''])
         ''cd ab''
   \<and> spec_matches [CHR ''a'', CHR ''b'', CHR 0x09, CHR ''c'', CHR ''d''] ''cd ab''
   \<and> snd (getSearchResults insertion_order empty_store ''c_b'') = [NocaseLike ''c_b%'']
   \<and> eval_cond (NocaseLike ''c_b%'') ''Cabinet''
   \<and> \<not> spec_matches ''c_b'' ''Cabinet''
   \<and> snd (getSearchResults insertion_order empty_store
            [CHR ''a'', CHR ''b'', CHR ''c'', CHR 0x00])
       = [NocaseLike [CHR ''a'', CHR ''b'', CHR ''c'', CHR 0x00, CHR ''%'']]
   \<and> eval_cond (NocaseLike [CHR ''a'', CHR ''b'', CHR ''c'', CHR 0x00, CHR ''%'']) ''abc''
   \<and> \<not> spec_matches [CHR ''a'', CHR ''b'', CHR ''c'', CHR 0x00] ''abc''"
  by code_simp

subsection \<open>A search string without terms\<close>

lemma searchTerms_of_blank:
  assumes "\<forall>c \<in> set searchTerm. is_js_whitespace c"
  shows "searchTerms_of searchTerm = []"
proof -
  have "trim searchTerm = []"
    using assms by (auto simp: trim_def dest: set_dropWhileD)
  moreover have "trim [] = []"
    by (simp add: trim_def)
  ultimately show ?thesis
    by (simp add: searchTerms_of_def)
qed

lemma getSearchResults_blank:
  "\<forall>c \<in> set searchTerm. is_js_whitespace c \<Longrightarrow>
     getSearchResults row_order db searchTerm = ([], [])"
  by (simp add: getSearchResults_def searchTerms_of_blank)

lemma getSearchResults_lower_blank:
  "\<forall>c \<in> set searchTerm. is_js_whitespace c \<Longrightarrow>
     getSearchResults_lower row_order db searchTerm
       = (search_query row_order db (LowerLike ''%undefined%''), [LowerLike ''%undefined%''])"
  by (simp add: getSearchResults_lower_def searchTerms_of_blank whereCondition_lower_def Let_def)

lemma blank_condition_accepted: "accepted (LowerLike ''%undefined%'')"
  by (simp add: accepted_def utf8_length_def like_pattern_limit_def expr_depth_limit_def
        ascii_lower_def)

text \<open>
  C3. The version of lines 171-237 returns the empty list and sends no query for a
  blank search string (lemma \<open>getSearchResults_blank\<close>). The version of lines 408-456
  has no such return: for the search string of two spaces it sends a query for the
  names that contain \<open>undefined\<close>, and returns the rows of the products it finds,
  whatever the order in which the store produces rows.
\<close>

theorem blank_search_sends_query:
  assumes "is_row_order row_order"
  shows "getSearchResults_lower row_order example_store ''  ''
     = ([\<lparr>row_products =
            \<lparr>products_slug = ''undefined-mug'', products_name = ''Undefined Mug'',
              products_description = ''A mug'', products_price = 9,
              products_subcategory_slug = ''mugs'', products_image_url = None\<rparr>,
          row_subcategories =
            \<lparr>subcategories_slug = ''mugs'', subcategories_name = ''Mugs'',
              subcategories_subcollection_id = 1, subcategories_image_url = None\<rparr>,
          row_subcollections =
            \<lparr>subcollections_id = 1, subcollections_name = ''Drinkware'',
              subcollections_category_slug = ''kitchen''\<rparr>,
          row_categories =
            \<lparr>categories_slug = ''kitchen'', categories_name = ''Kitchen'',
              categories_collection_id = 1, categories_image_url = None\<rparr>\<rparr>],
        [LowerLike ''%undefined%''])
   \<and> getSearchResults row_order example_store ''  '' = ([], [])"
proof -
  let ?row = "\<lparr>row_products =
            \<lparr>products_slug = ''undefined-mug'', products_name = ''Undefined Mug'',
              products_description = ''A mug'', products_price = 9,
              products_subcategory_slug = ''mugs'', products_image_url = None\<rparr>,
          row_subcategories =
            \<lparr>subcategories_slug = ''mugs'', subcategories_name = ''Mugs'',
              subcategories_subcollection_id = 1, subcategories_image_url = None\<rparr>,
          row_subcollections =
            \<lparr>subcollections_id = 1, subcollections_name = ''Drinkware'',
              subcollections_category_slug = ''kitchen''\<rparr>,
          row_categories =
            \<lparr>categories_slug = ''kitchen'', categories_name = ''Kitchen'',
              categories_collection_id = 1, categories_image_url = None\<rparr>\<rparr>"
  have blank: "\<forall>c \<in> set ''  ''. is_js_whitespace c"
    by (simp add: is_js_whitespace_def)
  have m: "matching_rows example_store (LowerLike ''%undefined%'') = [?row]"
    by code_simp
  have "mset (row_order (LowerLike ''%undefined%'') [?row]) = mset [?row]"
    using assms unfolding is_row_order_def by blast
  then have "row_order (LowerLike ''%undefined%'') [?row] = [?row]"
    by simp
  then have "search_query row_order example_store (LowerLike ''%undefined%'') = [?row]"
    by (simp only: search_query_def m) simp
  then have "getSearchResults_lower row_order example_store ''  ''
               = ([?row], [LowerLike ''%undefined%''])"
    by (simp only: getSearchResults_lower_blank[OF blank])
  moreover have "getSearchResults row_order example_store ''  '' = ([], [])"
    using blank by (rule getSearchResults_blank)
  ultimately show ?thesis
    by (rule conjI)
qed

theorem blank_search_sends_query_witness:
  "snd (getSearchResults_lower insertion_order example_store ''  '') = [LowerLike ''%undefined%'']
   \<and> map (products_slug \<circ> row_products)
         (fst (getSearchResults_lower insertion_order example_store ''  ''))
       = [''undefined-mug'']"
  using blank_search_sends_query[of insertion_order]
  by (simp add: is_row_order_def insertion_order_def)

section \<open>Properties of the image prefetch endpoint\<close>

lemma prefetch_page_fails:
  "page_fails fetch main_imgs url \<Longrightarrow> prefetch_page fetch main_imgs url = json_response [] 200"
  by (auto simp: page_fails_def prefetch_page_def split: fetch_result.splits option.splits)

lemma prefetch_page_status: "resp_status (prefetch_page fetch main_imgs url) = 200"
  by (simp add: prefetch_page_def json_response_def split: fetch_result.splits option.splits)

lemma development_has_host: "NODE_ENV e = Some ''development'' \<Longrightarrow> truthy (getHostname e)"
  by (simp add: getHostname_def truthy_def)

text \<open>
  C7 (as amended). When a host is resolved and the path is not empty, the endpoint
  fetches the page, and any failure of the fetch or of the parsing gives the empty
  image list with status 200. The status is 400 exactly when a host is resolved and the
  path is empty, and 500 exactly when no host is resolved; no other status than 200,
  400 and 500 is returned.
\<close>

theorem GET_failure_is_empty_ok:
  "(truthy (getHostname e) \<and> join ''/'' rest \<noteq> []
      \<and> page_fails fetch main_imgs
           (page_url (if NODE_ENV e = Some ''development'' then ''http'' else ''https'')
              (getHostname e) (join ''/'' rest))
    \<longrightarrow> GET e hostHeader rest fetch main_imgs = json_response [] 200)
   \<and> (resp_status (GET e hostHeader rest fetch main_imgs) = 500 \<longleftrightarrow> \<not> truthy (getHostname e))
   \<and> (resp_status (GET e hostHeader rest fetch main_imgs) = 400
        \<longleftrightarrow> truthy (getHostname e) \<and> join ''/'' rest = [])
   \<and> resp_status (GET e hostHeader rest fetch main_imgs) \<in> {200, 400, 500}"
proof (cases "truthy (getHostname e)")
  case True
  then show ?thesis
    by (auto simp: GET_def Let_def prefetch_page_fails prefetch_page_status json_response_def)
next
  case False
  then have "NODE_ENV e \<noteq> Some ''development''"
    using development_has_host by blast
  with False show ?thesis
    by (simp add: GET_def Let_def json_response_def)
qed

theorem GET_failure_is_empty_ok_witness:
  "GET \<lparr>NODE_ENV = Some ''production'', VERCEL_URL = Some ''shop.example'', VERCEL_ENV = None,
        VERCEL_PROJECT_PRODUCTION_URL = None, VERCEL_BRANCH_URL = None\<rparr>
     None [''products'', ''lamp''] (\<lambda>url. FetchRejected) (\<lambda>text. None)
   = \<lparr>resp_status = 200, resp_images = [], resp_cache_control = None\<rparr>"
proof -
  let ?e = "\<lparr>NODE_ENV = Some ''production'', VERCEL_URL = Some ''shop.example'', VERCEL_ENV = None,
             VERCEL_PROJECT_PRODUCTION_URL = None, VERCEL_BRANCH_URL = None\<rparr>"
  have "truthy (getHostname ?e)"
    by (simp add: getHostname_def truthy_def)
  moreover have "join ''/'' [''products'', ''lamp''] \<noteq> []"
    by (simp add: join_def)
  moreover have "page_fails (\<lambda>url. FetchRejected) (\<lambda>text. None) url" for url
    by (simp add: page_fails_def)
  ultimately show ?thesis
    using GET_failure_is_empty_ok[of ?e "[''products'', ''lamp'']" "\<lambda>url. FetchRejected"
                                     "\<lambda>text. None" None]
    by (simp add: json_response_def)
qed

text \<open>
  As the claim is written it fails: in a production environment without any of the
  \<open>VERCEL\<close> variables no host is resolved, and the endpoint answers with status 500
  (line 141), here for a request whose page could not be fetched either.
\<close>

theorem GET_server_error_counterexample:
  "GET \<lparr>NODE_ENV = Some ''production'', VERCEL_URL = None, VERCEL_ENV = None,
        VERCEL_PROJECT_PRODUCTION_URL = None, VERCEL_BRANCH_URL = None\<rparr>
     (Some ''shop.example'') [''products'', ''lamp''] (\<lambda>url. FetchRejected) (\<lambda>text. None)
   = \<lparr>resp_status = 500, resp_images = [], resp_cache_control = None\<rparr>"
  by (simp add: GET_def getHostname_def truthy_def js_or_def json_response_def)

text \<open>
  C9. Every image of every response has a \<open>src\<close> that is present and not empty.
\<close>

theorem GET_images_have_src:
  "\<forall>img \<in> set (resp_images (GET e hostHeader rest fetch main_imgs)).
     \<exists>s. img_src img = Some s \<and> s \<noteq> []"
proof -
  have "\<forall>img \<in> set (resp_images (prefetch_page fetch main_imgs url)).
          \<exists>s. img_src img = Some s \<and> s \<noteq> []" for url
    by (auto simp: prefetch_page_def json_response_def extract_images_def truthy_def
             split: fetch_result.splits option.splits)
  then show ?thesis
    by (simp add: GET_def Let_def json_response_def)
qed

theorem GET_images_have_src_witness:
  "resp_images
     (GET \<lparr>NODE_ENV = Some ''production'', VERCEL_URL = Some ''shop.example'', VERCEL_ENV = None,
           VERCEL_PROJECT_PRODUCTION_URL = None, VERCEL_BRANCH_URL = None\<rparr>
        None [''products'', ''lamp'']
        (\<lambda>url. if url = ''https://shop.example/products/lamp''
                then FetchResponse True (Some ''page'') else FetchRejected)
        (\<lambda>text. Some [[(''src'', ''/lamp.png''), (''alt'', ''Lamp'')],
                        [(''alt'', ''no source'')],
                        [(''src'', ''''), (''srcSet'', ''/a.png 2x'')]]))
   = [\<lparr>img_srcset = None, img_sizes = None, img_src = Some ''/lamp.png'', img_alt = Some ''Lamp'',
       img_loading = None\<rparr>]"
proof -
  let ?r = "GET \<lparr>NODE_ENV = Some ''production'', VERCEL_URL = Some ''shop.example'',
                  VERCEL_ENV = None, VERCEL_PROJECT_PRODUCTION_URL = None,
                  VERCEL_BRANCH_URL = None\<rparr>
        None [''products'', ''lamp'']
        (\<lambda>url. if url = ''https://shop.example/products/lamp''
                then FetchResponse True (Some ''page'') else FetchRejected)
        (\<lambda>text. Some [[(''src'', ''/lamp.png''), (''alt'', ''Lamp'')],
                        [(''alt'', ''no source'')],
                        [(''src'', ''''), (''srcSet'', ''/a.png 2x'')]])"
  have "filter (\<lambda>img. \<exists>s. img_src img = Some s \<and> s \<noteq> []) (resp_images ?r) = resp_images ?r"
    by (rule filter_True) (rule GET_images_have_src)
  then have "resp_images ?r
               = filter (\<lambda>img. \<exists>s. img_src img = Some s \<and> s \<noteq> []) (resp_images ?r)"
    by (rule sym)
  also have "\<dots> = [\<lparr>img_srcset = None, img_sizes = None, img_src = Some ''/lamp.png'',
                      img_alt = Some ''Lamp'', img_loading = None\<rparr>]"
    by (simp add: GET_def getHostname_def truthy_def js_or_def join_def page_url_def template_def
          prefetch_page_def extract_images_def image_of_def getAttribute_def)
  finally show ?thesis .
qed

section \<open>Properties of the session lookup\<close>

text \<open>
  C8. When the token verifies and the expiry of its payload is strictly before the
  clock, \<open>getUser\<close> returns null (\<open>Inr None\<close>) and does not throw, whatever the payload's
  user is and whatever the users table holds.
\<close>

theorem getUser_expired_null:
  assumes "sessionCookie = Some tok"
    and "verifyToken tok = Verified (Some sd)"
    and "expires sd = Some e"
    and "e < now"
  shows "getUser sessionCookie verifyToken now users = Inr None"
  using assms
  by (simp add: getUser_def date_lt_def split: option.splits js_id.splits)

theorem getUser_expired_null_witness:
  "getUser (Some ''tok'')
     (\<lambda>_. Verified (Some \<lparr>user = Some \<lparr>id_field = IdNumber (Integral 7)\<rparr>, expires = Some 1000\<rparr>))
     2000 [\<lparr>user_id = 7, user_fields = ''ann''\<rparr>] = Inr None"
  using getUser_expired_null
    [of "Some ''tok''" "''tok''"
        "\<lambda>_. Verified (Some \<lparr>user = Some \<lparr>id_field = IdNumber (Integral 7)\<rparr>, expires = Some 1000\<rparr>)"
        "\<lparr>user = Some \<lparr>id_field = IdNumber (Integral 7)\<rparr>, expires = Some 1000\<rparr>" 1000 2000
        "[\<lparr>user_id = 7, user_fields = ''ann''\<rparr>]"]
  by simp

text \<open>
  C10 (as amended). When the token verifies, the payload carries a user id that is a
  finite number, the session is not expired and no row of the users table has that id,
  \<open>getUser\<close> returns null (\<open>Inr None\<close>) and does not throw.
\<close>

theorem getUser_unknown_user_null:
  assumes "sessionCookie = Some tok"
    and "verifyToken tok = Verified (Some sd)"
    and "user sd = Some u"
    and "id_field u = IdNumber n"
    and "n \<noteq> NonFinite"
    and "\<not> date_lt (expires sd) now"
    and "\<forall>r \<in> set users. Integral (user_id r) \<noteq> n"
  shows "getUser sessionCookie verifyToken now users = Inr None"
proof -
  have "select_user_by_id users n = Inr []"
  proof (cases n)
    case (Integral k)
    with assms(7) have "filter (\<lambda>r. user_id r = k) users = []"
      by (auto simp: filter_empty_conv)
    with Integral show ?thesis by (simp add: select_user_by_id_def)
  next
    case Fraction
    then show ?thesis by (simp add: select_user_by_id_def)
  next
    case NonFinite
    with assms(5) show ?thesis by simp
  qed
  then show ?thesis
    using assms(1-4,6) by (simp add: getUser_def)
qed

theorem getUser_unknown_user_null_witness:
  "getUser (Some ''tok'')
     (\<lambda>_. Verified (Some \<lparr>user = Some \<lparr>id_field = IdNumber (Integral 7)\<rparr>, expires = Some 3000\<rparr>))
     2000 [\<lparr>user_id = 8, user_fields = ''bob''\<rparr>] = Inr None"
  using getUser_unknown_user_null
    [of "Some ''tok''" "''tok''"
        "\<lambda>_. Verified (Some \<lparr>user = Some \<lparr>id_field = IdNumber (Integral 7)\<rparr>, expires = Some 3000\<rparr>)"
        "\<lparr>user = Some \<lparr>id_field = IdNumber (Integral 7)\<rparr>, expires = Some 3000\<rparr>"
        "\<lparr>id_field = IdNumber (Integral 7)\<rparr>" "Integral 7" 2000
        "[\<lparr>user_id = 8, user_fields = ''bob''\<rparr>]"]
  by (simp add: date_lt_def)

text \<open>
  For a user id that is a number but not a finite one (NaN, or the Infinity that
  \<open>JSON.parse\<close> makes of \<open>1e999\<close>) the claim as written fails: the token verifies, the
  session is not expired, no row has that id, and the query throws.
\<close>

theorem getUser_non_finite_id_counterexample:
  "getUser (Some ''tok'')
     (\<lambda>_. Verified (Some \<lparr>user = Some \<lparr>id_field = IdNumber NonFinite\<rparr>, expires = Some 3000\<rparr>))
     2000 [\<lparr>user_id = 8, user_fields = ''bob''\<rparr>] = Inl QueryArgumentRejected"
  by (simp add: getUser_def date_lt_def select_user_by_id_def)

end
